theory Spec2Isabelle
  imports Main "HOL-Library.Multiset"
begin

section \<open>Data model\<close>

text \<open>
  The slip routes (\<^verbatim>\<open>routes/slips\<close>: POST, PUT and DELETE on \<^verbatim>\<open>/api/slips\<close>) work on
  three collections: items (the stock ledger), slips (sale records) and income entries.
  A collection is a list in the store's natural order, which is the order \<^verbatim>\<open>findOne\<close>
  scans. Object ids are strings, timestamps are natural numbers, quantities and amounts
  are integers (the numbers the routes compute with; \<^verbatim>\<open>NaN\<close> and fractions are outside
  the model). An absent request field (\<^verbatim>\<open>undefined\<close>) is \<open>None\<close>.
\<close>

type_synonym oid = string
type_synonym time = nat

record item =
  item_id :: oid
  item_name :: string
  item_sku :: string
  item_quantity :: int
  item_isActive :: bool
  item_lastUpdated :: time

text \<open>
  One element \<^verbatim>\<open>p\<close> of \<^verbatim>\<open>req.body.products\<close>. The descriptive fields that are only
  copied through (\<^verbatim>\<open>plateCompany\<close>, \<^verbatim>\<open>bikeName\<close>, \<^verbatim>\<open>plateType\<close>, \<^verbatim>\<open>formCompany\<close>,
  \<^verbatim>\<open>formType\<close>, \<^verbatim>\<open>formVariant\<close>, \<^verbatim>\<open>category\<close>, \<^verbatim>\<open>subcategory\<close>, \<^verbatim>\<open>company\<close>) are left out.
\<close>

record line =
  p_productName :: "string option"
  p_itemName :: "string option"
  p_quantity :: int
  p_basePrice :: "int option"
  p_unitPrice :: "int option"
  p_price :: "int option"
  p_coverType :: "string option"
  p_productType :: "string option"

text \<open>A priced line, as stored in \<^verbatim>\<open>slip.products\<close>.\<close>

record product =
  productName :: "string option"
  productType :: string
  coverType :: string
  quantity :: int
  basePrice :: int
  unitPrice :: int
  discountAmount :: int
  discountType :: string
  totalPrice :: int

record slip =
  slip_id :: oid
  slipNumber :: string
  customerName :: string
  customerPhone :: "string option"
  paymentMethod :: "string option"
  slip_notes :: "string option"
  products :: "product list"
  subtotal :: int
  totalAmount :: int
  tax :: "int option"
  discount :: "int option"
  status :: string
  cancelledAt :: "time option"

text \<open>A line of \<^verbatim>\<open>income.productsSold\<close>.\<close>

record sold =
  sold_productName :: "string option"
  sold_productType :: string
  sold_coverType :: string
  sold_quantity :: int
  sold_unitPrice :: int
  sold_totalPrice :: int

record income =
  inc_date :: time
  inc_totalIncome :: int
  inc_productsSold :: "sold list"
  inc_customerName :: string
  inc_paymentMethod :: string
  inc_slipNumber :: "string option"
  inc_slipId :: "oid option"
  inc_notes :: string
  inc_isActive :: bool

record store =
  items :: "item list"
  slips :: "slip list"
  incomes :: "income list"

datatype error =
    ProductsEmpty
  | TotalsRequired
  | ProductNotFound "string option"
  | InsufficientStock "string option" int
  | InvalidProductData
  | SlipNotFound
  | ServerError

section \<open>JavaScript operators on absent and falsy values\<close>

text \<open>\<^verbatim>\<open>a || b\<close> on strings: the empty string and \<^verbatim>\<open>undefined\<close> are falsy.\<close>

definition or_str :: "string option \<Rightarrow> string option \<Rightarrow> string option" where
  "or_str a b = (case a of None \<Rightarrow> b | Some s \<Rightarrow> if s = [] then b else Some s)"

definition or_str_default :: "string option \<Rightarrow> string \<Rightarrow> string" where
  "or_str_default a d = (case a of None \<Rightarrow> d | Some s \<Rightarrow> if s = [] then d else s)"

text \<open>\<^verbatim>\<open>a || b\<close> on numbers: \<^verbatim>\<open>0\<close> and \<^verbatim>\<open>undefined\<close> are falsy.\<close>

definition or_num :: "int option \<Rightarrow> int option \<Rightarrow> int option" where
  "or_num a b = (case a of None \<Rightarrow> b | Some n \<Rightarrow> if n = 0 then b else Some n)"

definition or_num_default :: "int option \<Rightarrow> int \<Rightarrow> int" where
  "or_num_default a d = (case a of None \<Rightarrow> d | Some n \<Rightarrow> if n = 0 then d else n)"

text \<open>\<^verbatim>\<open>p.productName || p.itemName\<close>\<close>

definition line_name :: "line \<Rightarrow> string option" where
  "line_name p = or_str (p_productName p) (p_itemName p)"

section \<open>Pricing\<close>

definition bulkDiscountTypes :: "string list" where
  "bulkDiscountTypes = [''Aster Cover'', ''Without Aster Cover'', ''Calendar Cover'']"

text \<open>\<^verbatim>\<open>calculateBulkDiscount(coverType, quantity, basePrice)\<close>, the same in POST and PUT.\<close>

definition calculateBulkDiscount :: "string \<Rightarrow> int \<Rightarrow> int \<Rightarrow> int" where
  "calculateBulkDiscount ct q bp = (if ct \<in> set bulkDiscountTypes \<and> q \<ge> 10 then 10 else 0)"

text \<open>\<^verbatim>\<open>p.basePrice || p.unitPrice || p.price || 0\<close>\<close>

definition line_basePrice :: "line \<Rightarrow> int" where
  "line_basePrice p = or_num_default (or_num (or_num (p_basePrice p) (p_unitPrice p)) (p_price p)) 0"

text \<open>
  The values of \<^verbatim>\<open>discountAmount\<close> and \<^verbatim>\<open>discountType\<close> when the block
  \<^verbatim>\<open>if (productType === 'Cover' && coverType) {...}\<close> is left: the bulk rule, before the
  manual override is looked at.
\<close>

definition bulkStage :: "line \<Rightarrow> int \<times> string" where
  "bulkStage p =
    (let q = p_quantity p;
         bp = line_basePrice p;
         ct = or_str_default (p_coverType p) [];
         pt = or_str_default (p_productType p) ''Cover''
     in if pt = ''Cover'' \<and> ct \<noteq> [] then
          (let bulkDiscount = calculateBulkDiscount ct q bp
           in if bulkDiscount > 0 then (bulkDiscount, ''bulk'') else (0, ''none''))
        else (0, ''none''))"

text \<open>
  The body of \<^verbatim>\<open>products.map(p => ...)\<close>, which POST uses for \<^verbatim>\<open>processedProducts\<close> and PUT
  for \<^verbatim>\<open>updateData.products\<close>; on the fields of the model the two bodies are the same.
\<close>

definition priceLine :: "line \<Rightarrow> product" where
  "priceLine p =
    (let pn = line_name p;
         q = p_quantity p;
         bp = line_basePrice p;
         ct = or_str_default (p_coverType p) [];
         pt = or_str_default (p_productType p) ''Cover'';
         (discountAmount0, discountType0) = bulkStage p;
         finalUnitPrice = (case p_unitPrice p of Some u \<Rightarrow> u | None \<Rightarrow> bp - discountAmount0);
         manual = (case p_unitPrice p of Some u \<Rightarrow> u \<noteq> bp - discountAmount0 | None \<Rightarrow> False);
         discountType1 = (if manual then ''manual'' else discountType0);
         discountAmount1 = (if manual then bp - finalUnitPrice else discountAmount0)
     in \<lparr> productName = pn, productType = pt, coverType = ct, quantity = q,
          basePrice = bp, unitPrice = finalUnitPrice,
          discountAmount = discountAmount1 * q, discountType = discountType1,
          totalPrice = q * finalUnitPrice \<rparr>)"

section \<open>The stock ledger\<close>

text \<open>
  \<^verbatim>\<open>new RegExp(pattern, 'i')\<close> is the JavaScript library's: the routes are modelled over any
  function \<open>rx\<close> that compiles a pattern to its test on a subject string, or to \<open>None\<close>
  when the constructor throws a \<^verbatim>\<open>SyntaxError\<close>. The pattern of \<^verbatim>\<open>undefined\<close> is the empty
  pattern.
\<close>

type_synonym regexp = "string \<Rightarrow> (string \<Rightarrow> bool) option"

definition pattern_of :: "string option \<Rightarrow> string" where
  "pattern_of n = (case n of None \<Rightarrow> [] | Some s \<Rightarrow> s)"

text \<open>
  \<^verbatim>\<open>Item.findOne({ $or: [{ name: { $regex } }, { sku: { $regex } }], isActive: true })\<close>:
  the first active item, in the store's order, whose name or SKU the expression matches.
  \<open>Inl\<close> is the exception of the constructor.
\<close>

definition findItem :: "regexp \<Rightarrow> string option \<Rightarrow> item list \<Rightarrow> error + item option" where
  "findItem rx n its =
    (case rx (pattern_of n) of
       None \<Rightarrow> Inl ServerError
     | Some m \<Rightarrow> Inr (find (\<lambda>i. (m (item_name i) \<or> m (item_sku i)) \<and> item_isActive i) its))"

text \<open>
  \<^verbatim>\<open>Item.findByIdAndUpdate(id, { $inc: { quantity: d }, lastUpdated: new Date() })\<close>:
  the document with that id is updated, no other.
\<close>

fun incQuantity :: "oid \<Rightarrow> int \<Rightarrow> time \<Rightarrow> item list \<Rightarrow> item list" where
  "incQuantity i d now [] = []"
| "incQuantity i d now (x # xs) =
    (if item_id x = i
     then x\<lparr>item_quantity := item_quantity x + d, item_lastUpdated := now\<rparr> # xs
     else x # incQuantity i d now xs)"

text \<open>The loop \<^verbatim>\<open>for (const update of productUpdates)\<close> of POST and PUT.\<close>

fun reduceStock :: "time \<Rightarrow> (oid \<times> int) list \<Rightarrow> item list \<Rightarrow> item list" where
  "reduceStock now [] its = its"
| "reduceStock now ((i, q) # us) its = reduceStock now us (incQuantity i (- q) now its)"

section \<open>POST /api/slips\<close>

record create =
  c_customerName :: "string option"
  c_subtotal :: "int option"
  c_totalAmount :: "int option"
  c_products :: "line list option"

text \<open>
  The loop \<^verbatim>\<open>for (const p of products)\<close> of POST: every line is resolved and checked
  against the items as they are when the request starts; nothing is written in the loop.
\<close>

fun resolveAndCheck :: "regexp \<Rightarrow> item list \<Rightarrow> line list \<Rightarrow> error + (oid \<times> int) list" where
  "resolveAndCheck rx its [] = Inr []"
| "resolveAndCheck rx its (p # ps) =
    (let pn = line_name p; q = p_quantity p in
     case findItem rx pn its of
       Inl e \<Rightarrow> Inl e
     | Inr None \<Rightarrow> Inl (ProductNotFound pn)
     | Inr (Some inventoryItem) \<Rightarrow>
         if item_quantity inventoryItem < q
         then Inl (InsufficientStock pn (item_quantity inventoryItem))
         else (case resolveAndCheck rx its ps of
                 Inl e \<Rightarrow> Inl e
               | Inr productUpdates \<Rightarrow> Inr ((item_id inventoryItem, q) # productUpdates)))"

definition sold_of :: "product \<Rightarrow> sold" where
  "sold_of p = \<lparr> sold_productName = productName p,
                 sold_productType = (if productType p = [] then ''Cover'' else productType p),
                 sold_coverType = coverType p,
                 sold_quantity = quantity p,
                 sold_unitPrice = unitPrice p,
                 sold_totalPrice = totalPrice p \<rparr>"

text \<open>
  The POST handler. The id and the number of the new slip come from the store and the
  slip model; they are arguments. A response other than 201 is \<open>Inl\<close>, and then the store
  is the one the request found: the early returns come before any write, and the
  \<^verbatim>\<open>catch\<close> block aborts the transaction. A new income entry is active.
\<close>

definition post_slip ::
  "regexp \<Rightarrow> time \<Rightarrow> oid \<Rightarrow> string \<Rightarrow> create \<Rightarrow> store \<Rightarrow> (error + slip) \<times> store" where
  "post_slip rx now newId newNumber req st =
    (case c_products req of
       None \<Rightarrow> (Inl ProductsEmpty, st)
     | Some ps \<Rightarrow>
        if ps = [] then (Inl ProductsEmpty, st)
        else if c_subtotal req = None \<or> c_totalAmount req = None then (Inl TotalsRequired, st)
        else
          (case resolveAndCheck rx (items st) ps of
             Inl e \<Rightarrow> (Inl e, st)
           | Inr productUpdates \<Rightarrow>
              (let processedProducts = map priceLine ps;
                   newSlip = \<lparr> slip_id = newId, slipNumber = newNumber,
                     customerName = or_str_default (c_customerName req) ''Walk-in Customer'',
                     customerPhone = None, paymentMethod = None, slip_notes = None,
                     products = processedProducts,
                     subtotal = the (c_subtotal req), totalAmount = the (c_totalAmount req),
                     tax = None, discount = None,
                     status = ''Paid'', cancelledAt = None \<rparr>;
                   items' = reduceStock now productUpdates (items st);
                   incomeRecord = \<lparr> inc_date = now,
                     inc_totalIncome = the (c_totalAmount req),
                     inc_productsSold = map sold_of (products newSlip),
                     inc_customerName = customerName newSlip,
                     inc_paymentMethod = or_str_default (paymentMethod newSlip) ''Cash'',
                     inc_slipNumber = Some (slipNumber newSlip),
                     inc_slipId = Some (slip_id newSlip),
                     inc_notes = ''Sale from slip '' @ slipNumber newSlip,
                     inc_isActive = True \<rparr>
               in (Inr newSlip,
                   \<lparr> items = items', slips = slips st @ [newSlip],
                     incomes = incomes st @ [incomeRecord] \<rparr>))))"

section \<open>PUT /api/slips/:id\<close>

record edit =
  e_customerName :: "string option"
  e_customerPhone :: "string option"
  e_paymentMethod :: "string option"
  e_notes :: "string option"
  e_products :: "line list option"
  e_subtotal :: "int option"
  e_totalAmount :: "int option"
  e_tax :: "int option"
  e_discount :: "int option"
  e_status :: "string option"

text \<open>
  The loop that gives the quantities of the slip's lines back to the items. PUT has it
  twice, over \<^verbatim>\<open>existingSlip.products\<close> both times: in the products branch
  (\<^verbatim>\<open>for (const oldProduct of existingSlip.products)\<close>) and in the cancellation branch
  (\<^verbatim>\<open>for (const product of existingSlip.products)\<close>). Each turn reads the items as the
  turns before left them; a line that resolves to no item is passed over.
\<close>

fun restoreLines :: "regexp \<Rightarrow> time \<Rightarrow> product list \<Rightarrow> item list \<Rightarrow> error + item list" where
  "restoreLines rx now [] its = Inr its"
| "restoreLines rx now (oldProduct # ops) its =
    (case findItem rx (productName oldProduct) its of
       Inl e \<Rightarrow> Inl e
     | Inr None \<Rightarrow> restoreLines rx now ops its
     | Inr (Some inventoryItem) \<Rightarrow>
         restoreLines rx now ops
           (incQuantity (item_id inventoryItem) (quantity oldProduct) now its))"

definition falsy_str :: "string option \<Rightarrow> bool" where
  "falsy_str a = (case a of None \<Rightarrow> True | Some s \<Rightarrow> s = [])"

text \<open>
  The loop \<^verbatim>\<open>for (const p of products)\<close> of PUT: validation, resolution and the stock
  check of every new line, on the items as the restoration left them.
\<close>

fun validateLines :: "regexp \<Rightarrow> item list \<Rightarrow> line list \<Rightarrow> error + (oid \<times> int) list" where
  "validateLines rx its [] = Inr []"
| "validateLines rx its (p # ps) =
    (let pn = line_name p; q = p_quantity p in
     if falsy_str pn \<or> q = 0 \<or> q \<le> 0 then Inl InvalidProductData
     else
      (case findItem rx pn its of
         Inl e \<Rightarrow> Inl e
       | Inr None \<Rightarrow> Inl (ProductNotFound pn)
       | Inr (Some inventoryItem) \<Rightarrow>
           (let currentStock = item_quantity inventoryItem in
            if currentStock < q then Inl (InsufficientStock pn currentStock)
            else (case validateLines rx its ps of
                    Inl e \<Rightarrow> Inl e
                  | Inr productUpdates \<Rightarrow> Inr ((item_id inventoryItem, q) # productUpdates)))))"

text \<open>The block \<^verbatim>\<open>if (products && Array.isArray(products)) {...}\<close>: restore, then reserve.\<close>

definition adjustInventory ::
  "regexp \<Rightarrow> time \<Rightarrow> product list \<Rightarrow> line list \<Rightarrow> item list \<Rightarrow> error + item list" where
  "adjustInventory rx now old ps its =
    (case restoreLines rx now old its of
       Inl e \<Rightarrow> Inl e
     | Inr restored \<Rightarrow>
        (case validateLines rx restored ps of
           Inl e \<Rightarrow> Inl e
         | Inr productUpdates \<Rightarrow> Inr (reduceStock now productUpdates restored)))"

text \<open>\<^verbatim>\<open>updateData\<close>, applied to the slip: a field of the request that is present overwrites.\<close>

definition set_opt :: "'a option \<Rightarrow> 'a \<Rightarrow> 'a" where
  "set_opt a old = (case a of None \<Rightarrow> old | Some v \<Rightarrow> v)"

definition keep_opt :: "'a option \<Rightarrow> 'a option \<Rightarrow> 'a option" where
  "keep_opt a old = (case a of None \<Rightarrow> old | Some v \<Rightarrow> Some v)"

definition cancels :: "edit \<Rightarrow> slip \<Rightarrow> bool" where
  "cancels req existingSlip = (e_status req = Some ''Cancelled'' \<and> cancelledAt existingSlip = None)"

definition updateData :: "time \<Rightarrow> edit \<Rightarrow> slip \<Rightarrow> slip" where
  "updateData now req existingSlip =
     existingSlip\<lparr>
       customerName := set_opt (e_customerName req) (customerName existingSlip),
       customerPhone := keep_opt (e_customerPhone req) (customerPhone existingSlip),
       paymentMethod := keep_opt (e_paymentMethod req) (paymentMethod existingSlip),
       slip_notes := keep_opt (e_notes req) (slip_notes existingSlip),
       subtotal := set_opt (e_subtotal req) (subtotal existingSlip),
       totalAmount := set_opt (e_totalAmount req) (totalAmount existingSlip),
       tax := keep_opt (e_tax req) (tax existingSlip),
       discount := keep_opt (e_discount req) (discount existingSlip),
       status := set_opt (e_status req) (status existingSlip),
       products := (case e_products req of None \<Rightarrow> products existingSlip
                    | Some ps \<Rightarrow> map priceLine ps),
       cancelledAt := (if cancels req existingSlip then Some now else cancelledAt existingSlip) \<rparr>"

text \<open>The filter \<^verbatim>\<open>{ $or: [{ slipId }, { slipNumber }], isActive: true }\<close> of both \<^verbatim>\<open>updateMany\<close>.\<close>

definition linked :: "slip \<Rightarrow> income \<Rightarrow> bool" where
  "linked existingSlip i =
     ((inc_slipId i = Some (slip_id existingSlip) \<or> inc_slipNumber i = Some (slipNumber existingSlip))
      \<and> inc_isActive i)"

definition deactivate :: "slip \<Rightarrow> income \<Rightarrow> income" where
  "deactivate existingSlip i =
     (if linked existingSlip i
      then i\<lparr> inc_isActive := False,
               inc_notes := ''Cancelled - '' @
                 (if slipNumber existingSlip = [] then slip_id existingSlip
                  else slipNumber existingSlip) \<rparr>
      else i)"

text \<open>The block \<^verbatim>\<open>if (status === 'Cancelled' && !existingSlip.cancelledAt) {...}\<close>.\<close>

definition cancelBranch ::
  "regexp \<Rightarrow> time \<Rightarrow> edit \<Rightarrow> slip \<Rightarrow> item list \<times> income list \<Rightarrow> error + item list \<times> income list" where
  "cancelBranch rx now req existingSlip s =
     (if cancels req existingSlip then
        (case restoreLines rx now (products existingSlip) (fst s) of
           Inl e \<Rightarrow> Inl e
         | Inr its \<Rightarrow> Inr (its, map (deactivate existingSlip) (snd s)))
      else Inr s)"

text \<open>\<^verbatim>\<open>Slip.findByIdAndUpdate(req.params.id, updateData)\<close>\<close>

fun replaceSlip :: "oid \<Rightarrow> slip \<Rightarrow> slip list \<Rightarrow> slip list" where
  "replaceSlip i s [] = []"
| "replaceSlip i s (x # xs) = (if slip_id x = i then s # xs else x # replaceSlip i s xs)"

text \<open>
  The block \<^verbatim>\<open>if (products && Array.isArray(products) && status !== 'Cancelled') {...}\<close>:
  the linked active income entries are rewritten from the updated slip.
\<close>

definition rewriteIncome :: "edit \<Rightarrow> slip \<Rightarrow> slip \<Rightarrow> income \<Rightarrow> income" where
  "rewriteIncome req existingSlip updatedSlip i =
     (if linked existingSlip i
      then i\<lparr> inc_totalIncome := or_num_default (e_totalAmount req) (totalAmount updatedSlip),
               inc_productsSold := map sold_of (products updatedSlip),
               inc_customerName := or_str_default (e_customerName req) (customerName updatedSlip),
               inc_paymentMethod :=
                 (case or_str (e_paymentMethod req) (paymentMethod updatedSlip) of
                    None \<Rightarrow> inc_paymentMethod i | Some m \<Rightarrow> m) \<rparr>
      else i)"

text \<open>
  The PUT handler. \<open>Inl\<close> is a response other than 200; every such path aborts the
  transaction, so the store is the one the request found.
\<close>

definition put_slip ::
  "regexp \<Rightarrow> time \<Rightarrow> oid \<Rightarrow> edit \<Rightarrow> store \<Rightarrow> (error + slip) \<times> store" where
  "put_slip rx now i req st =
    (case find (\<lambda>s. slip_id s = i) (slips st) of
       None \<Rightarrow> (Inl SlipNotFound, st)
     | Some existingSlip \<Rightarrow>
        (case (case e_products req of
                 None \<Rightarrow> Inr (items st)
               | Some ps \<Rightarrow> adjustInventory rx now (products existingSlip) ps (items st)) of
           Inl e \<Rightarrow> (Inl e, st)
         | Inr adjusted \<Rightarrow>
            (case cancelBranch rx now req existingSlip (adjusted, incomes st) of
               Inl e \<Rightarrow> (Inl e, st)
             | Inr (its, incs) \<Rightarrow>
                (let updatedSlip = updateData now req existingSlip;
                     incs' = (if e_products req \<noteq> None \<and> e_status req \<noteq> Some ''Cancelled''
                              then map (rewriteIncome req existingSlip updatedSlip) incs
                              else incs)
                 in (Inr updatedSlip,
                     \<lparr> items = its, slips = replaceSlip i updatedSlip (slips st),
                       incomes = incs' \<rparr>)))))"

section \<open>DELETE /api/slips/:id\<close>

text \<open>\<^verbatim>\<open>Slip.findByIdAndDelete(req.params.id)\<close>: the slip document is removed, nothing else.\<close>

fun removeSlip :: "oid \<Rightarrow> slip list \<Rightarrow> slip list" where
  "removeSlip i [] = []"
| "removeSlip i (x # xs) = (if slip_id x = i then xs else x # removeSlip i xs)"

definition delete_slip :: "oid \<Rightarrow> store \<Rightarrow> (error + unit) \<times> store" where
  "delete_slip i st =
    (case find (\<lambda>s. slip_id s = i) (slips st) of
       None \<Rightarrow> (Inl SlipNotFound, st)
     | Some deletedSlip \<Rightarrow> (Inr (), st\<lparr> slips := removeSlip i (slips st) \<rparr>))"

section \<open>Notions used to state the properties\<close>

text \<open>The ledger: every item's id with its quantity, in the store's order.\<close>

definition ledger :: "item list \<Rightarrow> (oid \<times> int) list" where
  "ledger its = map (\<lambda>x. (item_id x, item_quantity x)) its"

text \<open>What resolution reads of the items: id, name, SKU and the active flag.\<close>

definition catalog :: "item list \<Rightarrow> (oid \<times> string \<times> string \<times> bool) list" where
  "catalog its = map (\<lambda>x. (item_id x, item_name x, item_sku x, item_isActive x)) its"

text \<open>The id of the item a product name resolves to, if \<^verbatim>\<open>findOne\<close> returns one.\<close>

definition resolve :: "regexp \<Rightarrow> item list \<Rightarrow> string option \<Rightarrow> oid option" where
  "resolve rx its n =
     (case findItem rx n its of Inr (Some inventoryItem) \<Rightarrow> Some (item_id inventoryItem) | _ \<Rightarrow> None)"

text \<open>The total quantity of the lines (name and quantity) that resolve to the item \<open>i\<close>.\<close>

definition held :: "regexp \<Rightarrow> item list \<Rightarrow> (string option \<times> int) list \<Rightarrow> oid \<Rightarrow> int" where
  "held rx its ls i = sum_list (map snd (filter (\<lambda>l. resolve rx its (fst l) = Some i) ls))"

definition old_lines :: "product list \<Rightarrow> (string option \<times> int) list" where
  "old_lines ops = map (\<lambda>p. (productName p, quantity p)) ops"

definition new_lines :: "line list \<Rightarrow> (string option \<times> int) list" where
  "new_lines ps = map (\<lambda>p. (line_name p, p_quantity p)) ps"

text \<open>
  The base price as the specification words it: the explicit base price when the line has
  one, else the supplied unit price, else the legacy price, else 0.
\<close>

definition claimed_basePrice :: "line \<Rightarrow> int" where
  "claimed_basePrice p =
    (case p_basePrice p of
       Some b \<Rightarrow> b
     | None \<Rightarrow> (case p_unitPrice p of
                  Some u \<Rightarrow> u
                | None \<Rightarrow> (case p_price p of Some x \<Rightarrow> x | None \<Rightarrow> 0)))"

section \<open>A concrete shop\<close>

text \<open>
  For a pattern of letters, digits and blanks \<^verbatim>\<open>new RegExp(pattern, 'i').test(s)\<close> says
  whether \<open>s\<close> contains the pattern, upper and lower case taken as equal. The examples
  use such patterns only.
\<close>

definition upper :: "char \<Rightarrow> char" where
  "upper c = (let n = (of_char c :: nat) in if 97 \<le> n \<and> n \<le> 122 then char_of (n - 32) else c)"

fun starts_with :: "string \<Rightarrow> string \<Rightarrow> bool" where
  "starts_with [] s = True"
| "starts_with (a # as) [] = False"
| "starts_with (a # as) (b # bs) = (a = b \<and> starts_with as bs)"

fun contains :: "string \<Rightarrow> string \<Rightarrow> bool" where
  "contains pat [] = (pat = [])"
| "contains pat (c # cs) = (starts_with pat (c # cs) \<or> contains pat cs)"

definition literal_rx :: regexp where
  "literal_rx pat = Some (\<lambda>s. contains (map upper pat) (map upper s))"

definition seat :: item where
  "seat = \<lparr> item_id = ''i1'', item_name = ''Seat Cover'', item_sku = ''SC-01'',
            item_quantity = 5, item_isActive = True, item_lastUpdated = 0 \<rparr>"

definition plate :: item where
  "plate = \<lparr> item_id = ''i2'', item_name = ''Number Plate'', item_sku = ''NP-01'',
             item_quantity = 3, item_isActive = True, item_lastUpdated = 0 \<rparr>"

definition order :: "string \<Rightarrow> int \<Rightarrow> line" where
  "order n q = \<lparr> p_productName = Some n, p_itemName = None, p_quantity = q,
       p_basePrice = Some 100, p_unitPrice = None, p_price = None,
       p_coverType = None, p_productType = None \<rparr>"

definition shop :: store where
  "shop = \<lparr> items = [seat, plate], slips = [], incomes = [] \<rparr>"

text \<open>Two lines, \<^verbatim>\<open>Seat Cover\<close> and \<^verbatim>\<open>seat\<close>, three pieces each.\<close>

definition twice :: create where
  "twice = \<lparr> c_customerName = None, c_subtotal = Some 600, c_totalAmount = Some 600,
       c_products = Some [order ''Seat Cover'' 3, order ''seat'' 3] \<rparr>"

text \<open>A line for a product the shop does not have, then five plates of the three in stock.\<close>

definition mixed :: create where
  "mixed = \<lparr> c_customerName = None, c_subtotal = Some 600, c_totalAmount = Some 600,
       c_products = Some [order ''Helmet'' 1, order ''Number Plate'' 5] \<rparr>"

definition plates5 :: create where
  "plates5 = \<lparr> c_customerName = None, c_subtotal = Some 500, c_totalAmount = Some 500,
       c_products = Some [order ''Seat Cover'' 1, order ''Number Plate'' 5] \<rparr>"

text \<open>A shop with one paid slip of two seat covers and three income entries.\<close>

definition receipt :: slip where
  "receipt = \<lparr> slip_id = ''s1'', slipNumber = ''SLIP-1'', customerName = ''Walk-in Customer'',
       customerPhone = None, paymentMethod = None, slip_notes = None,
       products = [priceLine (order ''Seat Cover'' 2)],
       subtotal = 200, totalAmount = 200, tax = None, discount = None,
       status = ''Paid'', cancelledAt = None \<rparr>"

definition entry :: "oid option \<Rightarrow> string option \<Rightarrow> income" where
  "entry sid num = \<lparr> inc_date = 0, inc_totalIncome = 200,
       inc_productsSold = map sold_of (products receipt),
       inc_customerName = ''Walk-in Customer'', inc_paymentMethod = ''Cash'',
       inc_slipNumber = num, inc_slipId = sid, inc_notes = [], inc_isActive = True \<rparr>"

definition sold_shop :: store where
  "sold_shop = \<lparr> items = [seat\<lparr>item_quantity := 3\<rparr>, plate], slips = [receipt],
       incomes = [entry (Some ''s1'') None, entry None (Some ''SLIP-1''),
                  entry (Some ''s9'') (Some ''SLIP-9'')] \<rparr>"

definition cancelled_shop :: store where
  "cancelled_shop = sold_shop\<lparr> slips := [receipt\<lparr>status := ''Cancelled'', cancelledAt := Some 7\<rparr>] \<rparr>"

definition no_edit :: edit where
  "no_edit = \<lparr> e_customerName = None, e_customerPhone = None, e_paymentMethod = None,
       e_notes = None, e_products = None, e_subtotal = None, e_totalAmount = None,
       e_tax = None, e_discount = None, e_status = None \<rparr>"

definition cancel_edit :: edit where
  "cancel_edit = no_edit\<lparr> e_status := Some ''Cancelled'' \<rparr>"

definition same_edit :: edit where
  "same_edit = no_edit\<lparr> e_products := Some [order ''Seat Cover'' 2] \<rparr>"

definition same_cancel_edit :: edit where
  "same_cancel_edit = same_edit\<lparr> e_status := Some ''Cancelled'' \<rparr>"

definition empty_cancel_edit :: edit where
  "empty_cancel_edit = no_edit\<lparr> e_products := Some [], e_status := Some ''Cancelled'' \<rparr>"

definition swap_cancel_edit :: edit where
  "swap_cancel_edit = no_edit\<lparr> e_products := Some [order ''Number Plate'' 1],
       e_status := Some ''Cancelled'' \<rparr>"

definition ex_bulk :: line where
  "ex_bulk = \<lparr> p_productName = Some ''Seat Cover'', p_itemName = None, p_quantity = 12,
      p_basePrice = Some 100, p_unitPrice = None, p_price = None,
      p_coverType = Some ''Calendar Cover'', p_productType = Some ''Cover'' \<rparr>"

definition ex_manual :: line where
  "ex_manual = ex_bulk\<lparr> p_unitPrice := Some 80 \<rparr>"

definition ex_unit_zero :: line where
  "ex_unit_zero = \<lparr> p_productName = Some ''Seat Cover'', p_itemName = None, p_quantity = 1,
      p_basePrice = None, p_unitPrice = Some 0, p_price = Some 30,
      p_coverType = None, p_productType = None \<rparr>"

definition ex_base_zero :: line where
  "ex_base_zero = \<lparr> p_productName = Some ''Seat Cover'', p_itemName = None, p_quantity = 1,
      p_basePrice = Some 0, p_unitPrice = Some 50, p_price = None,
      p_coverType = None, p_productType = None \<rparr>"

section \<open>Pricing: properties\<close>

lemma bulkStage_eq:
  "bulkStage p =
     (if productType (priceLine p) = ''Cover''
         \<and> coverType (priceLine p) \<in> {''Aster Cover'', ''Without Aster Cover'', ''Calendar Cover''}
         \<and> quantity (priceLine p) \<ge> 10
      then (10, ''bulk'') else (0, ''none''))"
  by (auto simp: bulkStage_def priceLine_def Let_def calculateBulkDiscount_def bulkDiscountTypes_def
       split: prod.splits)

lemma bulkStage_cases: "bulkStage p = (10, ''bulk'') \<or> bulkStage p = (0, ''none'')"
  using bulkStage_eq[of p] by (simp split: if_splits)

lemma priceLine_bulk_iff:
  "(discountType (priceLine p) = ''bulk'' \<longleftrightarrow>
      fst (bulkStage p) = 10
      \<and> (p_unitPrice p = None \<or> p_unitPrice p = Some (basePrice (priceLine p) - 10)))
   \<and> (discountType (priceLine p) = ''bulk'' \<longrightarrow>
        unitPrice (priceLine p) = basePrice (priceLine p) - 10
        \<and> discountAmount (priceLine p) = 10 * quantity (priceLine p))"
  using bulkStage_cases[of p]
  by (auto simp: priceLine_def Let_def split: option.splits if_splits)

lemmas pricing_defs = priceLine_def bulkStage_def Let_def calculateBulkDiscount_def
  bulkDiscountTypes_def line_basePrice_def or_num_def or_num_default_def or_str_default_def
  line_name_def or_str_def

text \<open>
  C6. The bulk rule gives 10 per unit exactly when the priced line's product type is
  \<^verbatim>\<open>Cover\<close>, its cover type is Aster Cover, Without Aster Cover or Calendar Cover, and its
  quantity is at least 10; otherwise it gives nothing. Without a supplied unit price the
  result of the bulk rule is the line's discount: unit price, stored discount and
  discount type follow it. The priced line has type \<^verbatim>\<open>bulk\<close> exactly when the rule gave
  10 and no other unit price was supplied, and then its unit price is the base price
  less 10 and its stored discount 10 times the quantity. A line with cover type Aster
  Cover, base price 100 and no unit price gets unit price 90, discount 100 and type
  \<^verbatim>\<open>bulk\<close> at quantity 10, and unit price 100, discount 0 and type \<^verbatim>\<open>none\<close> at quantity 9.
\<close>

theorem bulk_discount:
  "bulkStage p =
     (if productType (priceLine p) = ''Cover''
         \<and> coverType (priceLine p) \<in> {''Aster Cover'', ''Without Aster Cover'', ''Calendar Cover''}
         \<and> quantity (priceLine p) \<ge> 10
      then (10, ''bulk'') else (0, ''none''))
   \<and> (p_unitPrice p = None \<longrightarrow>
        unitPrice (priceLine p) = basePrice (priceLine p) - fst (bulkStage p)
        \<and> discountAmount (priceLine p) = fst (bulkStage p) * quantity (priceLine p)
        \<and> discountType (priceLine p) = snd (bulkStage p))
   \<and> (discountType (priceLine p) = ''bulk'' \<longleftrightarrow>
        fst (bulkStage p) = 10
        \<and> (p_unitPrice p = None \<or> p_unitPrice p = Some (basePrice (priceLine p) - 10)))
   \<and> (discountType (priceLine p) = ''bulk'' \<longrightarrow>
        unitPrice (priceLine p) = basePrice (priceLine p) - 10
        \<and> discountAmount (priceLine p) = 10 * quantity (priceLine p))
   \<and> (let a = priceLine (p\<lparr>p_coverType := Some ''Aster Cover'', p_productType := None,
                 p_quantity := 10, p_basePrice := Some 100, p_unitPrice := None\<rparr>)
      in unitPrice a = 90 \<and> discountAmount a = 100 \<and> discountType a = ''bulk'')
   \<and> (let b = priceLine (p\<lparr>p_coverType := Some ''Aster Cover'', p_productType := None,
                 p_quantity := 9, p_basePrice := Some 100, p_unitPrice := None\<rparr>)
      in unitPrice b = 100 \<and> discountAmount b = 0 \<and> discountType b = ''none'')"
proof -
  have 1: "p_unitPrice p = None \<longrightarrow>
        unitPrice (priceLine p) = basePrice (priceLine p) - fst (bulkStage p)
        \<and> discountAmount (priceLine p) = fst (bulkStage p) * quantity (priceLine p)
        \<and> discountType (priceLine p) = snd (bulkStage p)"
    by (simp add: priceLine_def Let_def split: prod.splits)
  have 2: "(let a = priceLine (p\<lparr>p_coverType := Some ''Aster Cover'', p_productType := None,
                 p_quantity := 10, p_basePrice := Some 100, p_unitPrice := None\<rparr>)
      in unitPrice a = 90 \<and> discountAmount a = 100 \<and> discountType a = ''bulk'')"
    by (simp add: pricing_defs)
  have 3: "(let b = priceLine (p\<lparr>p_coverType := Some ''Aster Cover'', p_productType := None,
                 p_quantity := 9, p_basePrice := Some 100, p_unitPrice := None\<rparr>)
      in unitPrice b = 100 \<and> discountAmount b = 0 \<and> discountType b = ''none'')"
    by (simp add: pricing_defs)
  from bulkStage_eq[of p] 1 2 3 priceLine_bulk_iff[of p] show ?thesis by blast
qed

theorem bulk_discount_witness:
  "p_unitPrice ex_bulk = None \<and> bulkStage ex_bulk = (10, ''bulk'')
   \<and> unitPrice (priceLine ex_bulk) = 90 \<and> discountAmount (priceLine ex_bulk) = 120
   \<and> discountType (priceLine ex_bulk) = ''bulk''"
  using bulk_discount [of ex_bulk]
  by (simp add: ex_bulk_def pricing_defs)

text \<open>
  C7. When the request supplies a unit price that differs from the base price minus the
  bulk discount, the supplied price is the line's unit price, the discount type is
  \<^verbatim>\<open>manual\<close>, and the stored discount is (base price - supplied price) times the
  quantity. Cover type Aster Cover, quantity 10, base price 100 and supplied unit price 95
  give type \<^verbatim>\<open>manual\<close> and discount 50, although the line is eligible for the bulk rule.
\<close>

theorem manual_override:
  "(p_unitPrice p = Some u \<and> u \<noteq> basePrice (priceLine p) - fst (bulkStage p) \<longrightarrow>
      unitPrice (priceLine p) = u
      \<and> discountType (priceLine p) = ''manual''
      \<and> discountAmount (priceLine p) = (basePrice (priceLine p) - u) * quantity (priceLine p))
   \<and> (let a = priceLine (p\<lparr>p_coverType := Some ''Aster Cover'', p_productType := None,
                 p_quantity := 10, p_basePrice := Some 100, p_unitPrice := Some 95\<rparr>)
      in fst (bulkStage (p\<lparr>p_coverType := Some ''Aster Cover'', p_productType := None,
                 p_quantity := 10, p_basePrice := Some 100, p_unitPrice := Some 95\<rparr>)) = 10
         \<and> unitPrice a = 95 \<and> discountType a = ''manual'' \<and> discountAmount a = 50)"
proof -
  have 1: "p_unitPrice p = Some u \<and> u \<noteq> basePrice (priceLine p) - fst (bulkStage p) \<longrightarrow>
      unitPrice (priceLine p) = u
      \<and> discountType (priceLine p) = ''manual''
      \<and> discountAmount (priceLine p) = (basePrice (priceLine p) - u) * quantity (priceLine p)"
    by (simp add: priceLine_def Let_def split: prod.splits)
  have 2: "(let a = priceLine (p\<lparr>p_coverType := Some ''Aster Cover'', p_productType := None,
                 p_quantity := 10, p_basePrice := Some 100, p_unitPrice := Some 95\<rparr>)
      in fst (bulkStage (p\<lparr>p_coverType := Some ''Aster Cover'', p_productType := None,
                 p_quantity := 10, p_basePrice := Some 100, p_unitPrice := Some 95\<rparr>)) = 10
         \<and> unitPrice a = 95 \<and> discountType a = ''manual'' \<and> discountAmount a = 50)"
    by (simp add: pricing_defs)
  from 1 2 show ?thesis by blast
qed

theorem manual_override_witness:
  "p_unitPrice ex_manual = Some 80
   \<and> 80 \<noteq> basePrice (priceLine ex_manual) - fst (bulkStage ex_manual)
   \<and> unitPrice (priceLine ex_manual) = 80
   \<and> discountType (priceLine ex_manual) = ''manual''
   \<and> discountAmount (priceLine ex_manual) = 240"
  using manual_override [of ex_manual 80]
  by (simp add: ex_manual_def ex_bulk_def pricing_defs)

lemma line_basePrice_eq:
  "line_basePrice p =
     (if p_basePrice p \<noteq> None \<and> p_basePrice p \<noteq> Some 0 then the (p_basePrice p)
      else if p_unitPrice p \<noteq> None \<and> p_unitPrice p \<noteq> Some 0 then the (p_unitPrice p)
      else if p_price p \<noteq> None \<and> p_price p \<noteq> Some 0 then the (p_price p)
      else 0)"
  by (simp add: line_basePrice_def or_num_def or_num_default_def split: option.splits)

lemma priceLine_basePrice: "basePrice (priceLine p) = line_basePrice p"
  by (simp add: priceLine_def Let_def split: prod.splits)

lemma priceLine_total: "totalPrice (priceLine p) = quantity (priceLine p) * unitPrice (priceLine p)"
  by (simp add: priceLine_def Let_def split: prod.splits)

lemma priceLine_discount: "discountAmount (priceLine p) =
       (if discountType (priceLine p) = ''manual''
        then basePrice (priceLine p) - unitPrice (priceLine p)
        else fst (bulkStage p)) * quantity (priceLine p)"
proof -
  have "snd (bulkStage p) \<noteq> ''manual''"
    by (simp add: bulkStage_def Let_def)
  then show ?thesis
    by (cases "bulkStage p") (auto simp: priceLine_def Let_def split: option.splits)
qed

text \<open>
  C8 as the specification words it fails on the code: a supplied unit price of 0 is
  passed over for the legacy price, and an explicit base price of 0 is passed over for
  the supplied unit price.
\<close>

theorem basePrice_zero_counterexample:
  "claimed_basePrice ex_unit_zero = 0 \<and> basePrice (priceLine ex_unit_zero) = 30
   \<and> claimed_basePrice ex_base_zero = 0 \<and> basePrice (priceLine ex_base_zero) = 50"
  by (simp add: claimed_basePrice_def ex_unit_zero_def ex_base_zero_def pricing_defs)

text \<open>
  C8, amended. The base price is the first of the explicit base price, the supplied unit
  price and the legacy price that is present and not 0, else 0: a price of 0 counts as
  absent. The stored discount is the per-unit discount (base price minus unit price for a
  manual override, the bulk discount otherwise) times the quantity, and the total price
  is quantity times unit price.
\<close>

theorem priced_line_construction:
  "basePrice (priceLine p) =
     (if p_basePrice p \<noteq> None \<and> p_basePrice p \<noteq> Some 0 then the (p_basePrice p)
      else if p_unitPrice p \<noteq> None \<and> p_unitPrice p \<noteq> Some 0 then the (p_unitPrice p)
      else if p_price p \<noteq> None \<and> p_price p \<noteq> Some 0 then the (p_price p)
      else 0)
   \<and> discountAmount (priceLine p) =
       (if discountType (priceLine p) = ''manual''
        then basePrice (priceLine p) - unitPrice (priceLine p)
        else fst (bulkStage p)) * quantity (priceLine p)
   \<and> totalPrice (priceLine p) = quantity (priceLine p) * unitPrice (priceLine p)"
  using line_basePrice_eq [of p] priceLine_basePrice [of p] priceLine_total [of p]
    priceLine_discount [of p]
  by presburger

theorem priced_line_construction_witness:
  "basePrice (priceLine ex_unit_zero) = 30
   \<and> discountType (priceLine ex_unit_zero) = ''manual''
   \<and> discountAmount (priceLine ex_unit_zero) = 30
   \<and> totalPrice (priceLine ex_unit_zero) = 0"
  using priced_line_construction [of ex_unit_zero]
  by (simp add: ex_unit_zero_def pricing_defs)

section \<open>The ledger: properties\<close>

lemma catalog_incQuantity [simp]: "catalog (incQuantity i d now its) = catalog its"
  by (induction its) (auto simp: catalog_def)

lemma catalog_ids: "catalog a = catalog b \<Longrightarrow> map item_id a = map item_id b"
proof -
  assume "catalog a = catalog b"
  then have "map fst (catalog a) = map fst (catalog b)" by simp
  then show ?thesis by (simp add: catalog_def comp_def)
qed

lemma find_catalog:
  assumes "catalog a = catalog b"
  shows "map_option item_id (find (\<lambda>i. (m (item_name i) \<or> m (item_sku i)) \<and> item_isActive i) a)
       = map_option item_id (find (\<lambda>i. (m (item_name i) \<or> m (item_sku i)) \<and> item_isActive i) b)"
  using assms
proof (induction a arbitrary: b)
  case Nil
  then show ?case by (simp add: catalog_def)
next
  case (Cons x xs)
  then obtain y ys where b: "b = y # ys" by (cases b) (auto simp: catalog_def)
  with Cons.prems have "catalog xs = catalog ys" and "item_name x = item_name y"
    and "item_sku x = item_sku y" and "item_isActive x = item_isActive y" and "item_id x = item_id y"
    by (auto simp: catalog_def)
  with Cons.IH[of ys] b show ?case by simp
qed

lemma resolve_find:
  "resolve rx its n =
     (case rx (pattern_of n) of
        None \<Rightarrow> None
      | Some m \<Rightarrow> map_option item_id
          (find (\<lambda>i. (m (item_name i) \<or> m (item_sku i)) \<and> item_isActive i) its))"
  by (simp add: resolve_def findItem_def split: option.splits)

lemma resolve_catalog:
  assumes "catalog a = catalog b"
  shows "resolve rx a n = resolve rx b n"
  unfolding resolve_find using find_catalog[OF assms] by (simp split: option.splits)

lemma held_catalog: "catalog a = catalog b \<Longrightarrow> held rx a ls i = held rx b ls i"
  by (simp add: held_def resolve_catalog[of a b])

lemma ledger_incQuantity:
  "distinct (map item_id its) \<Longrightarrow>
   ledger (incQuantity i d now its) = map (\<lambda>(j, q). (j, q + (if j = i then d else 0))) (ledger its)"
proof (induction its)
  case Nil
  then show ?case by (simp add: ledger_def)
next
  case (Cons x xs)
  show ?case
  proof (cases "item_id x = i")
    case True
    with Cons.prems have "i \<notin> item_id ` set xs" by auto
    then have "map (\<lambda>(j, q). (j, q + (if j = i then d else 0))) (ledger xs) = ledger xs"
      by (induction xs) (auto simp: ledger_def)
    with True show ?thesis by (simp add: ledger_def)
  next
    case False
    with Cons show ?thesis by (simp add: ledger_def)
  qed
qed

lemma findItem_Some_id:
  "findItem rx n its = Inr (Some x) \<Longrightarrow> resolve rx its n = Some (item_id x)"
  by (simp add: resolve_def)

lemma findItem_None: "findItem rx n its = Inr None \<Longrightarrow> resolve rx its n = None"
  by (simp add: resolve_def)

lemma restoreLines_ledger:
  "distinct (map item_id its) \<Longrightarrow> restoreLines rx now ops its = Inr its' \<Longrightarrow>
   catalog its' = catalog its \<and>
   ledger its' = map (\<lambda>(j, q). (j, q + held rx its (old_lines ops) j)) (ledger its)"
proof (induction ops arbitrary: its)
  case Nil
  then show ?case by (simp add: held_def old_lines_def)
next
  case (Cons p ops)
  show ?case
  proof (cases "findItem rx (productName p) its")
    case (Inl e)
    with Cons.prems show ?thesis by simp
  next
    case (Inr r)
    show ?thesis
    proof (cases r)
      case None
      with Inr Cons.prems have "restoreLines rx now ops its = Inr its'" by simp
      from Cons.IH[OF Cons.prems(1) this] findItem_None[of rx "productName p" its] Inr None
      show ?thesis by (simp add: held_def old_lines_def)
    next
      case (Some x)
      let ?its1 = "incQuantity (item_id x) (quantity p) now its"
      from Some Inr Cons.prems have r: "restoreLines rx now ops ?its1 = Inr its'" by simp
      have c: "catalog ?its1 = catalog its" by simp
      from Cons.prems(1) catalog_ids[OF c] have d: "distinct (map item_id ?its1)" by simp
      from Cons.IH[OF d r] have
        1: "catalog its' = catalog its" and
        2: "ledger its' = map (\<lambda>(j, q). (j, q + held rx ?its1 (old_lines ops) j)) (ledger ?its1)"
        by simp_all
      have h: "held rx ?its1 (old_lines ops) = held rx its (old_lines ops)"
        using held_catalog[OF c] by blast
      have res: "resolve rx its (productName p) = Some (item_id x)"
        using Inr Some by (simp add: resolve_def)
      have "ledger its' = map (\<lambda>(j, q). (j, q + held rx its (old_lines (p # ops)) j)) (ledger its)"
        unfolding 2 h ledger_incQuantity[OF Cons.prems(1)]
        using res by (auto simp: held_def old_lines_def)
      with 1 show ?thesis by simp
    qed
  qed
qed

lemma reduceStock_ledger:
  "distinct (map item_id its) \<Longrightarrow>
   catalog (reduceStock now us its) = catalog its \<and>
   ledger (reduceStock now us its)
     = map (\<lambda>(j, q). (j, q - sum_list (map snd (filter (\<lambda>u. fst u = j) us)))) (ledger its)"
proof (induction us arbitrary: its)
  case Nil
  then show ?case by simp
next
  case (Cons u us)
  obtain i d where u: "u = (i, d)" by (cases u)
  let ?its1 = "incQuantity i (- d) now its"
  have c: "catalog ?its1 = catalog its" by simp
  from Cons.prems catalog_ids[OF c] have dd: "distinct (map item_id ?its1)" by simp
  from Cons.IH[OF dd] show ?case
    unfolding u by (auto simp: ledger_incQuantity[OF Cons.prems])
qed


lemma resolveAndCheck_updates:
  "resolveAndCheck rx its ps = Inr us \<Longrightarrow>
   sum_list (map snd (filter (\<lambda>u. fst u = j) us)) = held rx its (new_lines ps) j"
proof (induction ps arbitrary: us)
  case Nil
  then show ?case by (simp add: held_def new_lines_def)
next
  case (Cons p ps)
  from Cons.prems obtain x us' where
    f: "findItem rx (line_name p) its = Inr (Some x)" and
    r: "resolveAndCheck rx its ps = Inr us'" and
    u: "us = (item_id x, p_quantity p) # us'"
    by (auto simp: Let_def split: sum.splits option.splits if_splits)
  from f have "resolve rx its (line_name p) = Some (item_id x)" by (simp add: resolve_def)
  with Cons.IH[OF r] u show ?case by (auto simp: held_def new_lines_def)
qed

lemma validateLines_updates:
  "validateLines rx its ps = Inr us \<Longrightarrow>
   sum_list (map snd (filter (\<lambda>u. fst u = j) us)) = held rx its (new_lines ps) j"
proof (induction ps arbitrary: us)
  case Nil
  then show ?case by (simp add: held_def new_lines_def)
next
  case (Cons p ps)
  from Cons.prems obtain x us' where
    f: "findItem rx (line_name p) its = Inr (Some x)" and
    r: "validateLines rx its ps = Inr us'" and
    u: "us = (item_id x, p_quantity p) # us'"
    by (auto simp: Let_def split: sum.splits option.splits if_splits)
  from f have "resolve rx its (line_name p) = Some (item_id x)" by (simp add: resolve_def)
  with Cons.IH[OF r] u show ?case by (auto simp: held_def new_lines_def)
qed

lemma restoreLines_error: "restoreLines rx now ops its = Inl e \<Longrightarrow> e = ServerError"
proof (induction ops arbitrary: its)
  case Nil
  then show ?case by simp
next
  case (Cons p ops)
  then show ?case
    by (auto simp: findItem_def split: sum.splits option.splits)
qed

lemma validateLines_insufficient:
  "validateLines rx its ps = Inl (InsufficientStock n a) \<Longrightarrow>
   \<exists>p x. p \<in> set ps \<and> line_name p = n \<and> findItem rx n its = Inr (Some x)
      \<and> a = item_quantity x \<and> a < p_quantity p"
proof (induction ps)
  case Nil
  then show ?case by simp
next
  case (Cons p ps)
  then show ?case
    by (fastforce simp: Let_def findItem_def split: sum.splits option.splits if_splits)
qed

lemma adjustInventory_ledger:
  assumes "distinct (map item_id its)"
      and "adjustInventory rx now old ps its = Inr its'"
  shows "catalog its' = catalog its"
    and "ledger its' = map (\<lambda>(j, q). (j, q + held rx its (old_lines old) j
                                          - held rx its (new_lines ps) j)) (ledger its)"
proof -
  from assms(2) obtain restored us where
    r: "restoreLines rx now old its = Inr restored" and
    v: "validateLines rx restored ps = Inr us" and
    e: "its' = reduceStock now us restored"
    by (auto simp: adjustInventory_def split: sum.splits)
  from restoreLines_ledger[OF assms(1) r] have
    c1: "catalog restored = catalog its" and
    l1: "ledger restored = map (\<lambda>(j, q). (j, q + held rx its (old_lines old) j)) (ledger its)"
    by simp_all
  from assms(1) catalog_ids[OF c1] have d: "distinct (map item_id restored)" by simp
  from reduceStock_ledger[OF d, of now us] have
    c2: "catalog its' = catalog restored" and
    l2: "ledger its' = map (\<lambda>(j, q). (j, q - sum_list (map snd (filter (\<lambda>u. fst u = j) us))))
                         (ledger restored)"
    unfolding e by simp_all
  have h: "\<And>j. sum_list (map snd (filter (\<lambda>u. fst u = j) us)) = held rx its (new_lines ps) j"
    using validateLines_updates[OF v] held_catalog[OF c1] by simp
  from c1 c2 show "catalog its' = catalog its" by simp
  show "ledger its' = map (\<lambda>(j, q). (j, q + held rx its (old_lines old) j
                                          - held rx its (new_lines ps) j)) (ledger its)"
    unfolding l2 l1 h by (simp add: case_prod_unfold)
qed

section \<open>POST and DELETE: properties\<close>

lemma post_slip_ledger:
  assumes "distinct (map item_id (items st))"
      and "post_slip rx now newId newNumber req st = (Inr s, st')"
  shows "\<exists>ps. c_products req = Some ps \<and>
           ledger (items st') =
             map (\<lambda>(j, q). (j, q - held rx (items st) (new_lines ps) j)) (ledger (items st))"
proof -
  from assms(2) obtain ps us where
    p: "c_products req = Some ps" and
    r: "resolveAndCheck rx (items st) ps = Inr us" and
    e: "items st' = reduceStock now us (items st)"
    by (auto simp: post_slip_def Let_def split: option.splits if_splits sum.splits)
  from reduceStock_ledger[OF assms(1), of now us] resolveAndCheck_updates[OF r] e p
  show ?thesis by simp
qed

text \<open>
  C1 does not hold of the code. The shop has five seat covers; a request with the lines
  \<^verbatim>\<open>Seat Cover\<close> and \<^verbatim>\<open>seat\<close>, three pieces each, resolves both lines to that item,
  passes both stock checks (each against the five in stock, since nothing is written
  before the loop ends), succeeds, and leaves the item at -1.
\<close>

theorem create_same_item_twice_negative:
  "resolve literal_rx (items shop) (Some ''Seat Cover'') = Some ''i1''
   \<and> resolve literal_rx (items shop) (Some ''seat'') = Some ''i1''
   \<and> ledger (items shop) = [(''i1'', 5), (''i2'', 3)]
   \<and> \<not> isl (fst (post_slip literal_rx 1 ''s1'' ''SLIP-1'' twice shop))
   \<and> ledger (items (snd (post_slip literal_rx 1 ''s1'' ''SLIP-1'' twice shop)))
        = [(''i1'', - 1), (''i2'', 3)]"
  by code_simp

lemma resolveAndCheck_bad:
  "p \<in> set ps \<Longrightarrow> findItem rx (line_name p) its = Inr (Some x) \<Longrightarrow>
   item_quantity x < p_quantity p \<Longrightarrow> \<exists>e. resolveAndCheck rx its ps = Inl e"
proof (induction ps)
  case Nil
  then show ?case by simp
next
  case (Cons a ps)
  then show ?case
    by (auto simp: Let_def split: sum.splits option.splits)
qed

lemma resolveAndCheck_first:
  "resolveAndCheck rx its pre = Inr us \<Longrightarrow> findItem rx (line_name p) its = Inr (Some x) \<Longrightarrow>
   item_quantity x < p_quantity p \<Longrightarrow>
   resolveAndCheck rx its (pre @ p # post) = Inl (InsufficientStock (line_name p) (item_quantity x))"
proof (induction pre arbitrary: us)
  case Nil
  then show ?case by (simp add: Let_def)
next
  case (Cons a pre)
  then show ?case
    by (auto simp: Let_def split: sum.splits option.splits if_splits)
qed

lemma findItem_Inl: "findItem rx n its = Inl e \<Longrightarrow> e = ServerError"
  by (auto simp: findItem_def split: option.splits)

lemma resolveAndCheck_Inl_first:
  "resolveAndCheck rx its ps = Inl e \<Longrightarrow>
   \<exists>pre q post us. ps = pre @ q # post \<and> resolveAndCheck rx its pre = Inr us
     \<and> (findItem rx (line_name q) its = Inl ServerError \<and> e = ServerError
        \<or> findItem rx (line_name q) its = Inr None \<and> e = ProductNotFound (line_name q)
        \<or> (\<exists>y. findItem rx (line_name q) its = Inr (Some y)
              \<and> item_quantity y < p_quantity q
              \<and> e = InsufficientStock (line_name q) (item_quantity y)))"
proof (induction ps)
  case Nil
  then show ?case by simp
next
  case (Cons a ps)
  let ?bad = "\<lambda>q. findItem rx (line_name q) its = Inl ServerError \<and> e = ServerError
        \<or> findItem rx (line_name q) its = Inr None \<and> e = ProductNotFound (line_name q)
        \<or> (\<exists>y. findItem rx (line_name q) its = Inr (Some y)
              \<and> item_quantity y < p_quantity q
              \<and> e = InsufficientStock (line_name q) (item_quantity y))"
  show ?case
  proof (cases "\<exists>x. findItem rx (line_name a) its = Inr (Some x) \<and> \<not> item_quantity x < p_quantity a")
    case False
    with Cons.prems have "?bad a"
      by (auto simp: Let_def split: sum.splits option.splits if_splits dest: findItem_Inl)
    then have "a # ps = [] @ a # ps \<and> resolveAndCheck rx its [] = Inr [] \<and> ?bad a" by simp
    then show ?thesis by blast
  next
    case True
    then obtain x where x: "findItem rx (line_name a) its = Inr (Some x)"
      "\<not> item_quantity x < p_quantity a" by blast
    with Cons.prems have "resolveAndCheck rx its ps = Inl e"
      by (auto simp: Let_def split: sum.splits)
    from Cons.IH[OF this] obtain pre q post us where
      1: "ps = pre @ q # post" "resolveAndCheck rx its pre = Inr us" "?bad q" by blast
    from 1(1) have "a # ps = (a # pre) @ q # post" by simp
    moreover from x 1(2) have
      "resolveAndCheck rx its (a # pre) = Inr ((item_id x, p_quantity a) # us)"
      by (simp add: Let_def)
    ultimately show ?thesis using 1(3) by blast
  qed
qed

lemma resolveAndCheck_passes:
  "resolveAndCheck rx its pre = Inr us \<Longrightarrow> p \<in> set pre \<Longrightarrow>
   findItem rx (line_name p) its = Inr (Some x) \<Longrightarrow> item_quantity x < p_quantity p \<Longrightarrow> False"
  using resolveAndCheck_bad[of p pre rx its x] by simp

text \<open>
  C2 as stated fails on the code: the request below contains a line for five plates
  where three are in stock, and is rejected for its first line, a product the shop does
  not have, with the not-found error.
\<close>

theorem create_other_error_counterexample:
  "order ''Number Plate'' 5 \<in> set (the (c_products mixed))
   \<and> findItem literal_rx (line_name (order ''Number Plate'' 5)) (items shop) = Inr (Some plate)
   \<and> item_quantity plate = 3 \<and> p_quantity (order ''Number Plate'' 5) = 5
   \<and> fst (post_slip literal_rx 1 ''s1'' ''SLIP-1'' mixed shop) = Inl (ProductNotFound (Some ''Helmet''))"
  by code_simp

text \<open>
  C2, amended. A Create request that contains a line asking for more than the matched
  item has in stock fails, and the store is the one the request found: no quantity
  changes, no slip and no income entry is added. When subtotal or total amount is
  missing, the error is the one for the missing totals. Otherwise it is the error of the
  first line, in the order of the request, that fails its check, a line at or before the
  one in question: the server error when the line's name does not compile, the
  not-found error when it resolves to no item, the insufficient-stock error with the
  line's name and the available quantity when it asks for more than the item has. So
  when subtotal and total amount are present and every line before that one passes, the
  error is the insufficient-stock error for that line.
\<close>

theorem create_insufficient_stock:
  assumes "c_products req = Some ps" and "p \<in> set ps"
      and "findItem rx (line_name p) (items st) = Inr (Some x)"
      and "item_quantity x < p_quantity p"
  shows "(\<exists>e. post_slip rx now newId newNumber req st = (Inl e, st))
       \<and> (\<forall>pre post us. ps = pre @ p # post \<and> c_subtotal req \<noteq> None \<and> c_totalAmount req \<noteq> None
             \<and> resolveAndCheck rx (items st) pre = Inr us \<longrightarrow>
           post_slip rx now newId newNumber req st
             = (Inl (InsufficientStock (line_name p) (item_quantity x)), st))
       \<and> (c_subtotal req = None \<or> c_totalAmount req = None \<longrightarrow>
           post_slip rx now newId newNumber req st = (Inl TotalsRequired, st))
       \<and> (c_subtotal req \<noteq> None \<and> c_totalAmount req \<noteq> None \<longrightarrow>
           (\<exists>pre q post us e. ps = pre @ q # post \<and> p \<notin> set pre
              \<and> resolveAndCheck rx (items st) pre = Inr us
              \<and> post_slip rx now newId newNumber req st = (Inl e, st)
              \<and> (findItem rx (line_name q) (items st) = Inl ServerError \<and> e = ServerError
                 \<or> findItem rx (line_name q) (items st) = Inr None
                    \<and> e = ProductNotFound (line_name q)
                 \<or> (\<exists>y. findItem rx (line_name q) (items st) = Inr (Some y)
                       \<and> item_quantity y < p_quantity q
                       \<and> e = InsufficientStock (line_name q) (item_quantity y)))))"
proof -
  from assms(2) have ne: "ps \<noteq> []" by auto
  from resolveAndCheck_bad[OF assms(2,3,4)] obtain e where
    e: "resolveAndCheck rx (items st) ps = Inl e" by blast
  have 1: "\<exists>e. post_slip rx now newId newNumber req st = (Inl e, st)"
    using assms(1) ne e by (simp add: post_slip_def)
  have 2: "post_slip rx now newId newNumber req st
             = (Inl (InsufficientStock (line_name p) (item_quantity x)), st)"
    if "ps = pre @ p # post" "c_subtotal req \<noteq> None" "c_totalAmount req \<noteq> None"
       "resolveAndCheck rx (items st) pre = Inr us" for pre post us
    using resolveAndCheck_first[OF that(4) assms(3,4), of post] assms(1) that(1,2,3)
    by (simp add: post_slip_def)
  have 3: "post_slip rx now newId newNumber req st = (Inl TotalsRequired, st)"
    if "c_subtotal req = None \<or> c_totalAmount req = None"
    using assms(1) ne that by (auto simp: post_slip_def)
  have 4: "\<exists>pre q post us e. ps = pre @ q # post \<and> p \<notin> set pre
              \<and> resolveAndCheck rx (items st) pre = Inr us
              \<and> post_slip rx now newId newNumber req st = (Inl e, st)
              \<and> (findItem rx (line_name q) (items st) = Inl ServerError \<and> e = ServerError
                 \<or> findItem rx (line_name q) (items st) = Inr None
                    \<and> e = ProductNotFound (line_name q)
                 \<or> (\<exists>y. findItem rx (line_name q) (items st) = Inr (Some y)
                       \<and> item_quantity y < p_quantity q
                       \<and> e = InsufficientStock (line_name q) (item_quantity y)))"
    if t: "c_subtotal req \<noteq> None \<and> c_totalAmount req \<noteq> None"
  proof -
    from resolveAndCheck_Inl_first[OF e] obtain pre q post us where
      d: "ps = pre @ q # post" and r: "resolveAndCheck rx (items st) pre = Inr us" and
      b: "findItem rx (line_name q) (items st) = Inl ServerError \<and> e = ServerError
                 \<or> findItem rx (line_name q) (items st) = Inr None
                    \<and> e = ProductNotFound (line_name q)
                 \<or> (\<exists>y. findItem rx (line_name q) (items st) = Inr (Some y)
                       \<and> item_quantity y < p_quantity q
                       \<and> e = InsufficientStock (line_name q) (item_quantity y))"
      by blast
    have np: "p \<notin> set pre" using resolveAndCheck_passes[OF r _ assms(3,4)] by blast
    have ps: "post_slip rx now newId newNumber req st = (Inl e, st)"
      using assms(1) ne e t by (auto simp: post_slip_def)
    from d np r ps b show ?thesis by blast
  qed
  from 1 2 3 4 show ?thesis by blast
qed

theorem create_insufficient_stock_witness:
  "post_slip literal_rx 1 ''s1'' ''SLIP-1'' plates5 shop = (Inl (InsufficientStock (Some ''Number Plate'') 3), shop)"
proof -
  have h1: "c_products plates5 = Some ([order ''Seat Cover'' 1] @ order ''Number Plate'' 5 # [])"
    by (simp add: plates5_def)
  have h2: "order ''Number Plate'' 5 \<in> set ([order ''Seat Cover'' 1] @ order ''Number Plate'' 5 # [])"
    by simp
  have h3: "findItem literal_rx (line_name (order ''Number Plate'' 5)) (items shop) = Inr (Some plate)"
    by code_simp
  have h4: "item_quantity plate < p_quantity (order ''Number Plate'' 5)"
    by (simp add: plate_def order_def)
  have h5: "c_subtotal plates5 \<noteq> None" "c_totalAmount plates5 \<noteq> None"
    by (simp_all add: plates5_def)
  have h6: "resolveAndCheck literal_rx (items shop) [order ''Seat Cover'' 1] = Inr [(''i1'', 1)]"
    by code_simp
  have n: "line_name (order ''Number Plate'' 5) = Some ''Number Plate''" "item_quantity plate = 3"
    by (simp_all add: line_name_def order_def or_str_def plate_def)
  note T = conjunct1[OF conjunct2[OF
      create_insufficient_stock[OF h1 h2 h3 h4, of 1 "''s1''" "''SLIP-1''"]]]
  from T h5 h6 show ?thesis unfolding n by blast
qed


lemma removeSlip_length:
  "find (\<lambda>s. slip_id s = i) xs = Some d \<Longrightarrow> length (removeSlip i xs) + 1 = length xs"
  by (induction xs) (auto split: if_splits)

lemma removeSlip_gone:
  "distinct (map slip_id xs) \<Longrightarrow> find (\<lambda>s. slip_id s = i) (removeSlip i xs) = None"
proof (induction xs)
  case Nil
  then show ?case by simp
next
  case (Cons a xs)
  show ?case
  proof (cases "slip_id a = i")
    case True
    with Cons.prems have "i \<notin> slip_id ` set xs" by auto
    then have "find (\<lambda>s. slip_id s = i) xs = None" by (auto simp: find_None_iff)
    with True show ?thesis by simp
  next
    case False
    with Cons show ?thesis by simp
  qed
qed

text \<open>
  C10. DELETE leaves the items and the income entries as they are, whatever the slip's
  status; a slip with the given id is removed from the collection (one document fewer,
  and with unique ids none with that id left).
\<close>

theorem delete_leaves_ledger_and_income:
  "items (snd (delete_slip i st)) = items st
   \<and> incomes (snd (delete_slip i st)) = incomes st
   \<and> (\<forall>d. find (\<lambda>s. slip_id s = i) (slips st) = Some d \<longrightarrow>
        fst (delete_slip i st) = Inr ()
        \<and> slips (snd (delete_slip i st)) = removeSlip i (slips st)
        \<and> length (slips (snd (delete_slip i st))) + 1 = length (slips st)
        \<and> (distinct (map slip_id (slips st)) \<longrightarrow>
             find (\<lambda>s. slip_id s = i) (slips (snd (delete_slip i st))) = None))"
proof -
  have 1: "items (snd (delete_slip i st)) = items st \<and> incomes (snd (delete_slip i st)) = incomes st"
    by (simp add: delete_slip_def split: option.splits)
  have 2: "fst (delete_slip i st) = Inr ()
        \<and> slips (snd (delete_slip i st)) = removeSlip i (slips st)
        \<and> length (slips (snd (delete_slip i st))) + 1 = length (slips st)
        \<and> (distinct (map slip_id (slips st)) \<longrightarrow>
             find (\<lambda>s. slip_id s = i) (slips (snd (delete_slip i st))) = None)"
    if "find (\<lambda>s. slip_id s = i) (slips st) = Some d" for d
    using that removeSlip_length[OF that] removeSlip_gone[of "slips st" i]
    by (simp add: delete_slip_def)
  from 1 2 show ?thesis by blast
qed

theorem delete_leaves_ledger_and_income_witness:
  "find (\<lambda>s. slip_id s = ''s1'') (slips sold_shop) = Some receipt
   \<and> distinct (map slip_id (slips sold_shop))
   \<and> fst (delete_slip ''s1'' sold_shop) = Inr ()
   \<and> slips (snd (delete_slip ''s1'' sold_shop)) = []
   \<and> items (snd (delete_slip ''s1'' sold_shop)) = items sold_shop
   \<and> incomes (snd (delete_slip ''s1'' sold_shop)) = incomes sold_shop
   \<and> length (incomes sold_shop) = 3"
proof -
  have h: "find (\<lambda>s. slip_id s = ''s1'') (slips sold_shop) = Some receipt"
    by (simp add: sold_shop_def receipt_def)
  have d: "distinct (map slip_id (slips sold_shop))" by (simp add: sold_shop_def)
  have r: "removeSlip ''s1'' (slips sold_shop) = []" by (simp add: sold_shop_def receipt_def)
  have l: "length (incomes sold_shop) = 3" by (simp add: sold_shop_def)
  from delete_leaves_ledger_and_income[of "''s1''" sold_shop] h d r l show ?thesis by simp
qed

section \<open>PUT: properties\<close>


lemma put_slip_Inr:
  assumes "find (\<lambda>s. slip_id s = i) (slips st) = Some ex"
      and "put_slip rx now i req st = (Inr u, st')"
  shows "\<exists>adjusted incs.
           (case e_products req of
              None \<Rightarrow> adjusted = items st
            | Some ps \<Rightarrow> adjustInventory rx now (products ex) ps (items st) = Inr adjusted)
         \<and> cancelBranch rx now req ex (adjusted, incomes st) = Inr (items st', incs)
         \<and> u = updateData now req ex
         \<and> slips st' = replaceSlip i u (slips st)
         \<and> incomes st' =
             (if e_products req \<noteq> None \<and> e_status req \<noteq> Some ''Cancelled''
              then map (rewriteIncome req ex u) incs else incs)"
  using assms
  by (auto simp: put_slip_def Let_def split: option.splits sum.splits prod.splits)

lemma put_slip_Inl:
  "put_slip rx now i req st = (r, st') \<Longrightarrow> isl r \<Longrightarrow> st' = st"
  by (auto simp: put_slip_def Let_def split: option.splits sum.splits prod.splits)

lemma cancelBranch_cancels:
  assumes "distinct (map item_id its)" and "cancels req ex"
      and "cancelBranch rx now req ex (its, incs) = Inr (its', incs')"
  shows "incs' = map (deactivate ex) incs"
    and "catalog its' = catalog its"
    and "ledger its' = map (\<lambda>(j, q). (j, q + held rx its (old_lines (products ex)) j)) (ledger its)"
proof -
  from assms(2,3) have r: "restoreLines rx now (products ex) its = Inr its'"
    and i: "incs' = map (deactivate ex) incs"
    by (auto simp: cancelBranch_def split: sum.splits)
  from i show "incs' = map (deactivate ex) incs" .
  from restoreLines_ledger[OF assms(1) r]
  show "catalog its' = catalog its"
    and "ledger its' = map (\<lambda>(j, q). (j, q + held rx its (old_lines (products ex)) j)) (ledger its)"
    by simp_all
qed

lemma cancelBranch_skip:
  "\<not> cancels req ex \<Longrightarrow> cancelBranch rx now req ex s = Inr s"
  by (simp add: cancelBranch_def)

lemma adjusted_catalog:
  assumes "distinct (map item_id its)"
      and "(case prods of None \<Rightarrow> adjusted = its
            | Some ps \<Rightarrow> adjustInventory rx now old ps its = Inr adjusted)"
  shows "catalog adjusted = catalog its" and "distinct (map item_id adjusted)"
proof -
  show c: "catalog adjusted = catalog its"
    using assms adjustInventory_ledger(1)[OF assms(1)] by (cases prods) auto
  from catalog_ids[OF c] assms(1) show "distinct (map item_id adjusted)" by simp
qed

lemma put_slip_found:
  "put_slip rx now i req st = (Inr u, st') \<Longrightarrow> \<exists>ex. find (\<lambda>s. slip_id s = i) (slips st) = Some ex"
  by (cases "find (\<lambda>s. slip_id s = i) (slips st)") (auto simp: put_slip_def)

lemma replaceSlip_find:
  "find (\<lambda>s. slip_id s = i) xs = Some ex \<Longrightarrow> slip_id u = i \<Longrightarrow>
   find (\<lambda>s. slip_id s = i) (replaceSlip i u xs) = Some u"
  by (induction xs) (auto split: if_splits)

lemma replaceSlip_same:
  "find (\<lambda>s. slip_id s = i) xs = Some u \<Longrightarrow> replaceSlip i u xs = xs"
  by (induction xs) (auto split: if_splits)

lemma find_slip_id: "find (\<lambda>s. slip_id s = i) xs = Some ex \<Longrightarrow> slip_id ex = i"
  by (auto simp: find_Some_iff)

lemma updateData_slip_id: "slip_id (updateData now req ex) = slip_id ex"
  by (simp add: updateData_def)



lemma result_split: "\<not> isl (fst R) \<Longrightarrow> R = (Inr (projr (fst R)), snd R)"
  by (cases R; cases "fst R") auto


lemma updateData_again:
  assumes "e_products req = None" and "e_status req = Some ''Cancelled''"
  shows "updateData now' req (updateData now req ex) = updateData now req ex"
    and "\<not> cancels req (updateData now req ex)"
proof -
  show 1: "\<not> cancels req (updateData now req ex)"
    using assms(2) by (auto simp: cancels_def updateData_def)
  have 2: "\<And>a (x::'a). set_opt a (set_opt a x) = set_opt a x"
    by (simp add: set_opt_def split: option.splits)
  have 3: "\<And>a (x::'a option). keep_opt a (keep_opt a x) = keep_opt a x"
    by (simp add: keep_opt_def split: option.splits)
  have "updateData now' req (updateData now req ex)
      = (updateData now req ex)\<lparr>cancelledAt := cancelledAt (updateData now req ex)\<rparr>"
    using 1 assms(1) by (simp add: updateData_def[of now' req] 2 3) (simp add: updateData_def 2 3)
  then show "updateData now' req (updateData now req ex) = updateData now req ex" by simp
qed

lemma adjustInventory_round_trip:
  assumes "distinct (map item_id its)"
      and "\<And>j. held rx its (new_lines ps) j = held rx its (old_lines old) j"
      and "adjustInventory rx now old ps its = Inr its'"
  shows "ledger its' = ledger its"
proof -
  from adjustInventory_ledger(2)[OF assms(1,3)] assms(2)
  have "ledger its' = map (\<lambda>(j, q). (j, q)) (ledger its)" by simp
  then show ?thesis by simp
qed

lemma put_slip_round_trip:
  assumes "distinct (map item_id (items st))"
      and "find (\<lambda>s. slip_id s = i) (slips st) = Some ex"
      and "e_products req = Some ps"
      and "\<And>j. held rx (items st) (new_lines ps) j = held rx (items st) (old_lines (products ex)) j"
      and "\<not> cancels req ex"
  shows "ledger (items (snd (put_slip rx now i req st))) = ledger (items st)"
proof (cases "adjustInventory rx now (products ex) ps (items st)")
  case (Inl e)
  with assms(2,3) show ?thesis by (simp add: put_slip_def)
next
  case (Inr its')
  with assms(2,3) cancelBranch_skip[OF assms(5)]
    adjustInventory_round_trip[OF assms(1) assms(4) Inr]
  show ?thesis by (simp add: put_slip_def Let_def)
qed

lemma put_slip_catalog:
  assumes "distinct (map item_id (items st))"
      and "put_slip rx now i req st = (Inr u, st')"
  shows "catalog (items st') = catalog (items st)"
proof -
  from put_slip_found[OF assms(2)] obtain ex where
    f: "find (\<lambda>s. slip_id s = i) (slips st) = Some ex" by blast
  from put_slip_Inr[OF f assms(2)] obtain adjusted incs where
    a: "(case e_products req of
              None \<Rightarrow> adjusted = items st
            | Some ps \<Rightarrow> adjustInventory rx now (products ex) ps (items st) = Inr adjusted)" and
    b: "cancelBranch rx now req ex (adjusted, incomes st) = Inr (items st', incs)"
    by blast
  from adjusted_catalog[OF assms(1) a] have
    ca: "catalog adjusted = catalog (items st)" and da: "distinct (map item_id adjusted)" .
  show ?thesis
  proof (cases "cancels req ex")
    case True
    from cancelBranch_cancels(2)[OF da True b] ca show ?thesis by simp
  next
    case False
    from b cancelBranch_skip[OF False] ca show ?thesis by simp
  qed
qed

lemma old_lines_priceLine: "old_lines (map priceLine ps) = new_lines ps"
  by (simp add: old_lines_def new_lines_def priceLine_def Let_def split: prod.splits)

lemma updateData_not_cancels:
  "e_status req = Some ''Cancelled'' \<Longrightarrow> \<not> cancels req (updateData now req ex)"
  by (auto simp: cancels_def updateData_def)

lemma updateData_products:
  "e_products req = Some ps \<Longrightarrow> products (updateData now req ex) = map priceLine ps"
  by (simp add: updateData_def)

lemma put_slip_repeat:
  assumes s: "e_status req = Some ''Cancelled''"
      and d: "distinct (map item_id (items st))"
      and r: "put_slip rx now i req st = (Inr u1, st1)"
  shows "ledger (items (snd (put_slip rx now' i req st1))) = ledger (items st1)"
    and "incomes (snd (put_slip rx now' i req st1)) = incomes st1"
proof -
  from put_slip_found[OF r] obtain ex where f: "find (\<lambda>s. slip_id s = i) (slips st) = Some ex"
    by blast
  from put_slip_Inr[OF f r] have u: "u1 = updateData now req ex"
    and sl: "slips st1 = replaceSlip i u1 (slips st)" by auto
  have id: "slip_id u1 = i" using u find_slip_id[OF f] by (simp add: updateData_slip_id)
  from replaceSlip_find[OF f id] sl have f1: "find (\<lambda>s. slip_id s = i) (slips st1) = Some u1"
    by simp
  have n: "\<not> cancels req u1" unfolding u by (rule updateData_not_cancels[OF s])
  from catalog_ids[OF put_slip_catalog[OF d r]] d have d1: "distinct (map item_id (items st1))"
    by simp
  obtain r2 st2 where p2: "put_slip rx now' i req st1 = (r2, st2)" by (cases "put_slip rx now' i req st1")
  show "incomes (snd (put_slip rx now' i req st1)) = incomes st1"
  proof (cases r2)
    case (Inl e)
    with put_slip_Inl[OF p2] p2 show ?thesis by simp
  next
    case (Inr u2)
    from put_slip_Inr[OF f1 p2[unfolded Inr]] cancelBranch_skip[OF n] s p2 show ?thesis by auto
  qed
  show "ledger (items (snd (put_slip rx now' i req st1))) = ledger (items st1)"
  proof (cases "e_products req")
    case None
    show ?thesis
    proof (cases r2)
      case (Inl e)
      with put_slip_Inl[OF p2] p2 show ?thesis by simp
    next
      case (Inr u2)
      from put_slip_Inr[OF f1 p2[unfolded Inr]] cancelBranch_skip[OF n] None p2 show ?thesis by auto
    qed
  next
    case (Some ps)
    have "held rx (items st1) (new_lines ps) j = held rx (items st1) (old_lines (products u1)) j" for j
      unfolding u updateData_products[OF Some] old_lines_priceLine ..
    from put_slip_round_trip[OF d1 f1 Some this n] show ?thesis .
  qed
qed

text \<open>
  C4 as stated fails on the code: the slip below is cancelled already; an edit with
  status \<^verbatim>\<open>Cancelled\<close> and an empty products array goes through, and its products
  branch gives the slip's two seat covers back once more, 3 to 5.
\<close>

theorem cancelled_edit_with_products_counterexample:
  "e_status empty_cancel_edit = Some ''Cancelled''
   \<and> e_products empty_cancel_edit = Some []
   \<and> map cancelledAt (slips cancelled_shop) = [Some 7]
   \<and> \<not> isl (fst (put_slip literal_rx 9 ''s1'' empty_cancel_edit cancelled_shop))
   \<and> ledger (items cancelled_shop) = [(''i1'', 3), (''i2'', 3)]
   \<and> ledger (items (snd (put_slip literal_rx 9 ''s1'' empty_cancel_edit cancelled_shop)))
        = [(''i1'', 5), (''i2'', 3)]"
  by code_simp

text \<open>
  C4, amended. On a slip that has \<^verbatim>\<open>cancelledAt\<close>, an edit with status \<^verbatim>\<open>Cancelled\<close>
  skips the cancellation block: the income entries are unchanged, the slip returned and
  stored keeps its \<^verbatim>\<open>cancelledAt\<close>, and the items are what the products branch alone
  leaves. Without a products array the request succeeds and items and income entries
  are unchanged. With a products array the products branch runs as in any edit: every
  item's quantity goes up by what the old lines held on it and down by what the new
  lines take. Sending a cancellation (status \<^verbatim>\<open>Cancelled\<close>, no products) a second time
  returns the same slip and leaves the whole store as the first call left it. And after
  any edit with status \<^verbatim>\<open>Cancelled\<close> that went through, with or without products, the
  same request sent again changes no item's quantity and no income entry.
\<close>

theorem cancellation_idempotent:
  "(e_status req = Some ''Cancelled'' \<and> find (\<lambda>s. slip_id s = i) (slips st) = Some ex
      \<and> cancelledAt ex = Some t \<longrightarrow>
      (\<forall>u st'. put_slip rx now i req st = (Inr u, st') \<longrightarrow>
          incomes st' = incomes st \<and> cancelledAt u = Some t
        \<and> (case e_products req of
             None \<Rightarrow> items st' = items st
           | Some ps \<Rightarrow> adjustInventory rx now (products ex) ps (items st) = Inr (items st'))
        \<and> find (\<lambda>s. slip_id s = i) (slips st') = Some u)
    \<and> (e_products req = None \<longrightarrow>
          (\<exists>u. put_slip rx now i req st = (Inr u, st\<lparr>slips := replaceSlip i u (slips st)\<rparr>))))
   \<and> (e_status req = Some ''Cancelled'' \<and> e_products req = None
      \<and> put_slip rx now i req st = (Inr u1, st1) \<longrightarrow>
        put_slip rx now' i req st1 = (Inr u1, st1))
   \<and> (e_status req = Some ''Cancelled'' \<and> distinct (map item_id (items st))
      \<and> put_slip rx now i req st = (Inr u1, st1) \<longrightarrow>
        ledger (items (snd (put_slip rx now' i req st1))) = ledger (items st1)
      \<and> incomes (snd (put_slip rx now' i req st1)) = incomes st1)
   \<and> (e_status req = Some ''Cancelled'' \<and> find (\<lambda>s. slip_id s = i) (slips st) = Some ex
      \<and> cancelledAt ex = Some t \<and> e_products req = Some ps
      \<and> distinct (map item_id (items st))
      \<and> put_slip rx now i req st = (Inr u, st') \<longrightarrow>
        ledger (items st') =
          map (\<lambda>(j, q). (j, q + held rx (items st) (old_lines (products ex)) j
                               - held rx (items st) (new_lines ps) j)) (ledger (items st)))"
proof -
  have A: "incomes st' = incomes st \<and> cancelledAt u = Some t
        \<and> (case e_products req of
             None \<Rightarrow> items st' = items st
           | Some ps \<Rightarrow> adjustInventory rx now (products ex) ps (items st) = Inr (items st'))
        \<and> find (\<lambda>s. slip_id s = i) (slips st') = Some u"
    if s: "e_status req = Some ''Cancelled''" and f: "find (\<lambda>s. slip_id s = i) (slips st) = Some ex"
       and c: "cancelledAt ex = Some t" and r: "put_slip rx now i req st = (Inr u, st')" for u st'
  proof -
    have n: "\<not> cancels req ex" using c by (simp add: cancels_def)
    from put_slip_Inr[OF f r] obtain adjusted incs where
      a: "(case e_products req of
              None \<Rightarrow> adjusted = items st
            | Some ps \<Rightarrow> adjustInventory rx now (products ex) ps (items st) = Inr adjusted)" and
      b: "cancelBranch rx now req ex (adjusted, incomes st) = Inr (items st', incs)" and
      u: "u = updateData now req ex" and
      i: "incomes st' =
             (if e_products req \<noteq> None \<and> e_status req \<noteq> Some ''Cancelled''
              then map (rewriteIncome req ex u) incs else incs)"
      by blast
    from put_slip_Inr[OF f r] have sl: "slips st' = replaceSlip i u (slips st)" by blast
    have id: "slip_id u = i" using u find_slip_id[OF f] by (simp add: updateData_slip_id)
    have stored: "find (\<lambda>s. slip_id s = i) (slips st') = Some u"
      unfolding sl by (rule replaceSlip_find[OF f id])
    from b cancelBranch_skip[OF n] have "adjusted = items st'" "incs = incomes st" by simp_all
    with a i s u n c have "incomes st' = incomes st \<and> cancelledAt u = Some t
        \<and> (case e_products req of
             None \<Rightarrow> items st' = items st
           | Some ps \<Rightarrow> adjustInventory rx now (products ex) ps (items st) = Inr (items st'))"
      by (auto simp: updateData_def split: option.splits)
    with stored show ?thesis by simp
  qed
  have B: "\<exists>u. put_slip rx now i req st = (Inr u, st\<lparr>slips := replaceSlip i u (slips st)\<rparr>)"
    if "e_status req = Some ''Cancelled''" "find (\<lambda>s. slip_id s = i) (slips st) = Some ex"
       "cancelledAt ex = Some t" "e_products req = None"
  proof -
    have n: "\<not> cancels req ex" using that(3) by (simp add: cancels_def)
    show ?thesis using that n
      by (simp add: put_slip_def cancelBranch_def Let_def)
  qed
  have C: "put_slip rx now' i req st1 = (Inr u1, st1)"
    if s: "e_status req = Some ''Cancelled''" and p: "e_products req = None"
       and r: "put_slip rx now i req st = (Inr u1, st1)"
  proof -
    from put_slip_found[OF r] obtain ex where f: "find (\<lambda>s. slip_id s = i) (slips st) = Some ex"
      by blast
    from put_slip_Inr[OF f r] have u: "u1 = updateData now req ex"
      and sl: "slips st1 = replaceSlip i u1 (slips st)" by auto
    have id: "slip_id u1 = i" using u find_slip_id[OF f] by (simp add: updateData_slip_id)
    from replaceSlip_find[OF f id] sl have f1: "find (\<lambda>s. slip_id s = i) (slips st1) = Some u1"
      by simp
    from updateData_again(1)[OF p s, of now' now ex] updateData_again(2)[OF p s, of now ex] u have
      again: "updateData now' req u1 = u1" and n: "\<not> cancels req u1" by simp_all
    from replaceSlip_same[OF f1] have same: "replaceSlip i u1 (slips st1) = slips st1" .
    show ?thesis using f1 p n again same
      by (simp add: put_slip_def cancelBranch_def Let_def)
  qed
  have D: "ledger (items (snd (put_slip rx now' i req st1))) = ledger (items st1)
      \<and> incomes (snd (put_slip rx now' i req st1)) = incomes st1"
    if "e_status req = Some ''Cancelled''" "distinct (map item_id (items st))"
       "put_slip rx now i req st = (Inr u1, st1)"
    using put_slip_repeat[OF that] by simp
  have E: "ledger (items st') =
          map (\<lambda>(j, q). (j, q + held rx (items st) (old_lines (products ex)) j
                               - held rx (items st) (new_lines ps) j)) (ledger (items st))"
    if s: "e_status req = Some ''Cancelled''" and f: "find (\<lambda>s. slip_id s = i) (slips st) = Some ex"
       and c: "cancelledAt ex = Some t" and p: "e_products req = Some ps"
       and d: "distinct (map item_id (items st))" and r: "put_slip rx now i req st = (Inr u, st')"
  proof -
    from A[OF s f c r] p have "adjustInventory rx now (products ex) ps (items st) = Inr (items st')"
      by simp
    from adjustInventory_ledger(2)[OF d this] show ?thesis .
  qed
  from A B C D E show ?thesis by blast
qed

theorem cancellation_idempotent_witness:
  "\<not> isl (fst (put_slip literal_rx 7 ''s1'' cancel_edit sold_shop))
   \<and> put_slip literal_rx 9 ''s1'' cancel_edit (snd (put_slip literal_rx 7 ''s1'' cancel_edit sold_shop))
      = put_slip literal_rx 7 ''s1'' cancel_edit sold_shop
   \<and> \<not> isl (fst (put_slip literal_rx 9 ''s1'' cancel_edit cancelled_shop))
   \<and> items (snd (put_slip literal_rx 9 ''s1'' cancel_edit cancelled_shop)) = items cancelled_shop
   \<and> incomes (snd (put_slip literal_rx 9 ''s1'' cancel_edit cancelled_shop)) = incomes cancelled_shop
   \<and> ledger (items (snd (put_slip literal_rx 7 ''s1'' swap_cancel_edit sold_shop)))
        = [(''i1'', 7), (''i2'', 2)]
   \<and> ledger (items (snd (put_slip literal_rx 9 ''s1'' swap_cancel_edit
                (snd (put_slip literal_rx 7 ''s1'' swap_cancel_edit sold_shop)))))
        = ledger (items (snd (put_slip literal_rx 7 ''s1'' swap_cancel_edit sold_shop)))
   \<and> ledger (items cancelled_shop) = [(''i1'', 3), (''i2'', 3)]
   \<and> ledger (items (snd (put_slip literal_rx 9 ''s1'' swap_cancel_edit cancelled_shop)))
        = [(''i1'', 5), (''i2'', 2)]
   \<and> ledger (items (snd (put_slip literal_rx 9 ''s1'' swap_cancel_edit cancelled_shop)))
        = map (\<lambda>(j, q). (j, q
              + held literal_rx (items cancelled_shop)
                  (old_lines (products (receipt\<lparr>status := ''Cancelled'', cancelledAt := Some 7\<rparr>))) j
              - held literal_rx (items cancelled_shop) (new_lines [order ''Number Plate'' 1]) j))
            (ledger (items cancelled_shop))"
proof -
  let ?R = "put_slip literal_rx 7 ''s1'' cancel_edit sold_shop"
  let ?S = "put_slip literal_rx 9 ''s1'' cancel_edit cancelled_shop"
  let ?ex = "receipt\<lparr>status := ''Cancelled'', cancelledAt := Some 7\<rparr>"
  have h3: "e_status cancel_edit = Some ''Cancelled''" by code_simp
  have h5: "e_products cancel_edit = None" by code_simp
  have ok: "\<not> isl (fst ?R)" by code_simp
  have ok2: "\<not> isl (fst ?S)" by code_simp
  have f: "find (\<lambda>s. slip_id s = ''s1'') (slips cancelled_shop) = Some ?ex"
    by (simp add: cancelled_shop_def sold_shop_def receipt_def)
  have c: "cancelledAt ?ex = Some 7" by simp
  note sp = result_split[OF ok]
  note sp2 = result_split[OF ok2]
  have a0: "put_slip literal_rx 9 ''s1'' cancel_edit (snd ?R) = (Inr (projr (fst ?R)), snd ?R)"
    by (rule mp[OF conjunct1[OF conjunct2[OF cancellation_idempotent[where req = cancel_edit and i = "''s1''"
         and st = sold_shop and rx = literal_rx and now = 7 and ?u1.0 = "projr (fst ?R)"
         and ?st1.0 = "snd ?R" and now' = 9]]]])
       (intro conjI h3 h5 sp)
  have a: "put_slip literal_rx 9 ''s1'' cancel_edit (snd ?R) = ?R"
    by (rule trans[OF a0 sp[symmetric]])
  note g = conjunct1[OF mp[OF conjunct1[OF cancellation_idempotent[where req = cancel_edit
      and i = "''s1''" and st = cancelled_shop and ex = ?ex and t = 7 and rx = literal_rx
      and now = 9]], OF conjI[OF h3 conjI[OF f c]]]]
  note g2 = mp[OF spec[OF spec[OF g]], OF sp2]
  have b1: "incomes (snd ?S) = incomes cancelled_shop" by (rule conjunct1[OF g2])
  have "case e_products cancel_edit of
          None \<Rightarrow> items (snd ?S) = items cancelled_shop
        | Some ps \<Rightarrow> adjustInventory literal_rx 9 (products ?ex) ps (items cancelled_shop)
                     = Inr (items (snd ?S))"
    by (rule conjunct1[OF conjunct2[OF conjunct2[OF g2]]])
  then have b2: "items (snd ?S) = items cancelled_shop" unfolding h5 by simp
  let ?Q = "put_slip literal_rx 7 ''s1'' swap_cancel_edit sold_shop"
  have okq: "\<not> isl (fst ?Q)" by code_simp
  have d: "distinct (map item_id (items sold_shop))" by code_simp
  have h3': "e_status swap_cancel_edit = Some ''Cancelled''" by code_simp
  have lq: "ledger (items (snd ?Q)) = [(''i1'', 7), (''i2'', 2)]" by code_simp
  note spq = result_split[OF okq]
  note D = mp[OF conjunct1[OF conjunct2[OF conjunct2[OF cancellation_idempotent[where
      req = swap_cancel_edit
      and i = "''s1''" and st = sold_shop and rx = literal_rx and now = 7
      and ?u1.0 = "projr (fst ?Q)" and ?st1.0 = "snd ?Q" and now' = 9]]]],
      OF conjI[OF h3' conjI[OF d spq]]]
  let ?P = "put_slip literal_rx 9 ''s1'' swap_cancel_edit cancelled_shop"
  have okp: "\<not> isl (fst ?P)" by code_simp
  have hp: "e_products swap_cancel_edit = Some [order ''Number Plate'' 1]" by code_simp
  have d2: "distinct (map item_id (items cancelled_shop))" by code_simp
  have l0: "ledger (items cancelled_shop) = [(''i1'', 3), (''i2'', 3)]" by code_simp
  have lp: "ledger (items (snd ?P)) = [(''i1'', 5), (''i2'', 2)]" by code_simp
  note spp = result_split[OF okp]
  note E = mp[OF conjunct2[OF conjunct2[OF conjunct2[OF cancellation_idempotent[where
      req = swap_cancel_edit and i = "''s1''" and st = cancelled_shop and ex = ?ex and t = 7
      and ps = "[order ''Number Plate'' 1]" and rx = literal_rx and now = 9
      and u = "projr (fst ?P)" and st' = "snd ?P"]]]],
      OF conjI[OF h3' conjI[OF f conjI[OF c conjI[OF hp conjI[OF d2 spp]]]]]]
  show ?thesis by (intro conjI ok a ok2 b2 b1 lq conjunct1[OF D] l0 lp E)
qed

lemma findItem_mem: "findItem rx n its = Inr (Some x) \<Longrightarrow> x \<in> set its"
  by (auto simp: findItem_def find_Some_iff split: option.splits)

lemma sum_list_member_le:
  "(x::int) \<in> set xs \<Longrightarrow> \<forall>y \<in> set xs. 0 \<le> y \<Longrightarrow> x \<le> sum_list xs"
proof (induction xs)
  case Nil
  then show ?case by simp
next
  case (Cons a xs)
  have "0 \<le> sum_list xs" using Cons.prems(2) by (simp add: sum_list_nonneg)
  with Cons show ?case by auto
qed

lemma held_member_le:
  assumes "(n, q) \<in> set ls" and "resolve rx its n = Some j" and "\<forall>l \<in> set ls. 0 \<le> snd l"
  shows "q \<le> held rx its ls j"
proof -
  have "q \<in> set (map snd (filter (\<lambda>l. resolve rx its (fst l) = Some j) ls))"
    using assms(1,2) by force
  moreover have "\<forall>y \<in> set (map snd (filter (\<lambda>l. resolve rx its (fst l) = Some j) ls)). 0 \<le> y"
    using assms(3) by auto
  ultimately show ?thesis unfolding held_def by (rule sum_list_member_le)
qed

lemma ledger_mem:
  assumes "ledger b = map (\<lambda>(j, q). (j, q + h j)) (ledger a)" and "x \<in> set b"
  shows "\<exists>y \<in> set a. item_id y = item_id x \<and> item_quantity x = item_quantity y + h (item_id y)"
proof -
  from assms(2) have "(item_id x, item_quantity x) \<in> set (ledger b)"
    by (auto simp: ledger_def)
  with assms(1) have "(item_id x, item_quantity x) \<in> set (map (\<lambda>(j, q). (j, q + h j)) (ledger a))"
    by simp
  then show ?thesis by (auto simp: ledger_def)
qed

lemma cancelBranch_error: "cancelBranch rx now req ex s = Inl e \<Longrightarrow> e = ServerError"
  by (auto simp: cancelBranch_def restoreLines_error split: if_splits sum.splits)

lemma put_slip_insufficient:
  assumes "find (\<lambda>s. slip_id s = i) (slips st) = Some ex"
      and "fst (put_slip rx now i req st) = Inl (InsufficientStock n a)"
  shows "\<exists>ps. e_products req = Some ps
           \<and> adjustInventory rx now (products ex) ps (items st) = Inl (InsufficientStock n a)"
proof (cases "e_products req")
  case None
  with assms show ?thesis
    by (auto simp: put_slip_def Let_def split: sum.splits prod.splits dest: cancelBranch_error)
next
  case (Some ps)
  with assms show ?thesis
    by (auto simp: put_slip_def Let_def split: sum.splits prod.splits dest: cancelBranch_error)
qed

lemma adjustInventory_insufficient:
  assumes "distinct (map item_id its)"
      and "adjustInventory rx now old ps its = Inl (InsufficientStock n a)"
  shows "\<exists>p y. p \<in> set ps \<and> line_name p = n \<and> a < p_quantity p \<and> y \<in> set its
            \<and> resolve rx its n = Some (item_id y)
            \<and> a = item_quantity y + held rx its (old_lines old) (item_id y)"
proof -
  from assms(2) obtain restored where
    r: "restoreLines rx now old its = Inr restored" and
    v: "validateLines rx restored ps = Inl (InsufficientStock n a)"
    by (auto simp: adjustInventory_def split: sum.splits dest: restoreLines_error)
  from restoreLines_ledger[OF assms(1) r] have
    c: "catalog restored = catalog its" and
    l: "ledger restored = map (\<lambda>(j, q). (j, q + held rx its (old_lines old) j)) (ledger its)"
    by simp_all
  from validateLines_insufficient[OF v] obtain p x where
    p: "p \<in> set ps" "line_name p = n" "a < p_quantity p" and
    x: "findItem rx n restored = Inr (Some x)" "a = item_quantity x"
    by blast
  from ledger_mem[OF l findItem_mem[OF x(1)]] obtain y where
    y: "y \<in> set its" "item_id y = item_id x"
       "item_quantity x = item_quantity y + held rx its (old_lines old) (item_id y)"
    by blast
  have "resolve rx its n = Some (item_id y)"
    using resolve_catalog[OF c, of rx n] findItem_Some_id[OF x(1)] y(2) by simp
  with p y x(2) show ?thesis by blast
qed

lemma map_ledger_add:
  "map (\<lambda>(j, q). (j, q + g j)) (map (\<lambda>(j, q). (j, q + (f j :: int))) L)
     = map (\<lambda>(j, q). (j, q + f j + g j)) L"
  by (induction L) auto

lemma put_slip_edit_cancel_ledger:
  assumes "distinct (map item_id (items st))"
      and "find (\<lambda>s. slip_id s = i) (slips st) = Some ex"
      and "e_products req = Some ps"
      and "cancels req ex"
      and "put_slip rx now i req st = (Inr u, st')"
  shows "\<exists>adjusted. adjustInventory rx now (products ex) ps (items st) = Inr adjusted
          \<and> ledger adjusted =
              map (\<lambda>(j, q). (j, q + held rx (items st) (old_lines (products ex)) j
                                   - held rx (items st) (new_lines ps) j)) (ledger (items st))
          \<and> ledger (items st') =
              map (\<lambda>(j, q). (j, q + held rx (items st) (old_lines (products ex)) j)) (ledger adjusted)"
    and "ledger (items st') =
           map (\<lambda>(j, q). (j, q + 2 * held rx (items st) (old_lines (products ex)) j
                                - held rx (items st) (new_lines ps) j)) (ledger (items st))"
proof -
  let ?ho = "held rx (items st) (old_lines (products ex))"
  let ?hn = "held rx (items st) (new_lines ps)"
  from put_slip_Inr[OF assms(2,5)] assms(3) obtain adjusted incs where
    a: "adjustInventory rx now (products ex) ps (items st) = Inr adjusted" and
    b: "cancelBranch rx now req ex (adjusted, incomes st) = Inr (items st', incs)"
    by auto
  from adjustInventory_ledger[OF assms(1) a] have
    ca: "catalog adjusted = catalog (items st)" and
    la: "ledger adjusted = map (\<lambda>(j, q). (j, q + ?ho j - ?hn j)) (ledger (items st))"
    by simp_all
  from catalog_ids[OF ca] assms(1) have da: "distinct (map item_id adjusted)" by simp
  from cancelBranch_cancels(3)[OF da assms(4) b] held_catalog[OF ca]
  have lc: "ledger (items st') = map (\<lambda>(j, q). (j, q + ?ho j)) (ledger adjusted)"
    by simp
  from a la lc show "\<exists>adjusted. adjustInventory rx now (products ex) ps (items st) = Inr adjusted
          \<and> ledger adjusted = map (\<lambda>(j, q). (j, q + ?ho j - ?hn j)) (ledger (items st))
          \<and> ledger (items st') = map (\<lambda>(j, q). (j, q + ?ho j)) (ledger adjusted)"
    by blast
  have "ledger (items st') = map (\<lambda>(j, q). (j, q + (?ho j - ?hn j) + ?ho j)) (ledger (items st))"
    unfolding lc la using map_ledger_add[of ?ho "\<lambda>j. ?ho j - ?hn j" "ledger (items st)"]
    by (simp add: algebra_simps)
  then show "ledger (items st') =
      map (\<lambda>(j, q). (j, q + 2 * ?ho j - ?hn j)) (ledger (items st))"
    by (simp add: algebra_simps)
qed

lemma held_mset:
  assumes "mset ls = mset ls'"
  shows "held rx its ls j = held rx its ls' j"
proof -
  have e: "\<And>xs. sum_list (map snd (filter (\<lambda>l. resolve rx its (fst l) = Some j) xs))
      = sum_mset (image_mset snd (filter_mset (\<lambda>l. resolve rx its (fst l) = Some j) (mset xs)))"
    by (simp flip: sum_mset_sum_list)
  show ?thesis by (simp only: held_def e assms)
qed

text \<open>
  C5 as stated fails on the code: the edit below sends the slip's own line (two seat
  covers) together with status \<^verbatim>\<open>Cancelled\<close>, goes through, and leaves the seat covers at
  5, not at the 3 they were at.
\<close>

theorem edit_same_lines_and_cancel_counterexample:
  "e_products same_cancel_edit = Some [order ''Seat Cover'' 2]
   \<and> new_lines [order ''Seat Cover'' 2] = old_lines (products receipt)
   \<and> find (\<lambda>s. slip_id s = ''s1'') (slips sold_shop) = Some receipt
   \<and> \<not> isl (fst (put_slip literal_rx 7 ''s1'' same_cancel_edit sold_shop))
   \<and> ledger (items sold_shop) = [(''i1'', 3), (''i2'', 3)]
   \<and> ledger (items (snd (put_slip literal_rx 7 ''s1'' same_cancel_edit sold_shop)))
        = [(''i1'', 5), (''i2'', 3)]"
  by code_simp

text \<open>
  C5, amended. An edit whose products have the names and quantities of the slip's lines,
  in any order. When the restore-then-reserve block goes through, every item's quantity
  is what it was before; so the edit, unless it also newly cancels the slip, leaves every
  quantity as it was (an aborted edit changes nothing), and when it also newly cancels
  the slip the only change is the cancellation's: what the old lines held is given back
  once. The stock check of the block reads the restored quantities: an
  insufficient-stock error reports the item's quantity before the edit plus everything
  the slip's lines held on that item, and when no item and no line has a negative
  quantity the edit raises no insufficient-stock error.
\<close>

theorem edit_same_lines_round_trip:
  assumes "distinct (map item_id (items st))"
      and "find (\<lambda>s. slip_id s = i) (slips st) = Some ex"
      and "e_products req = Some ps"
      and "mset (new_lines ps) = mset (old_lines (products ex))"
  shows "(\<forall>its'. adjustInventory rx now (products ex) ps (items st) = Inr its' \<longrightarrow>
            ledger its' = ledger (items st))
       \<and> (\<not> cancels req ex \<longrightarrow>
            ledger (items (snd (put_slip rx now i req st))) = ledger (items st))
       \<and> (cancels req ex \<longrightarrow>
            (\<forall>u st'. put_slip rx now i req st = (Inr u, st') \<longrightarrow>
               ledger (items st') =
                 map (\<lambda>(j, q). (j, q + held rx (items st) (old_lines (products ex)) j))
                   (ledger (items st))))
       \<and> (\<forall>n a. fst (put_slip rx now i req st) = Inl (InsufficientStock n a) \<longrightarrow>
            (\<exists>y \<in> set (items st). resolve rx (items st) n = Some (item_id y)
               \<and> a = item_quantity y + held rx (items st) (old_lines (products ex)) (item_id y)))
       \<and> ((\<forall>x \<in> set (items st). 0 \<le> item_quantity x) \<and> (\<forall>p \<in> set ps. 0 \<le> p_quantity p) \<longrightarrow>
            (\<forall>n a. fst (put_slip rx now i req st) \<noteq> Inl (InsufficientStock n a)))"
proof -
  have h: "\<And>j. held rx (items st) (new_lines ps) j
             = held rx (items st) (old_lines (products ex)) j"
    by (rule held_mset[OF assms(4)])
  have 1: "ledger its' = ledger (items st)"
    if "adjustInventory rx now (products ex) ps (items st) = Inr its'" for its'
    by (rule adjustInventory_round_trip[OF assms(1) h that])
  have 2: "ledger (items (snd (put_slip rx now i req st))) = ledger (items st)"
    if n: "\<not> cancels req ex"
    by (rule put_slip_round_trip[OF assms(1,2,3) h n])
  have 3: "\<exists>p y. p \<in> set ps \<and> line_name p = n \<and> a < p_quantity p \<and> y \<in> set (items st)
            \<and> resolve rx (items st) n = Some (item_id y)
            \<and> a = item_quantity y + held rx (items st) (old_lines (products ex)) (item_id y)"
    if "fst (put_slip rx now i req st) = Inl (InsufficientStock n a)" for n a
    using put_slip_insufficient[OF assms(2) that] assms(3)
      adjustInventory_insufficient[OF assms(1), of rx now "products ex" ps n a]
    by auto
  have 4: "fst (put_slip rx now i req st) \<noteq> Inl (InsufficientStock n a)"
    if q: "\<forall>x \<in> set (items st). 0 \<le> item_quantity x" and nn: "\<forall>p \<in> set ps. 0 \<le> p_quantity p"
    for n a
  proof
    assume "fst (put_slip rx now i req st) = Inl (InsufficientStock n a)"
    from 3[OF this] obtain p y where
      p: "p \<in> set ps" "line_name p = n" "a < p_quantity p" and
      y: "y \<in> set (items st)" "resolve rx (items st) n = Some (item_id y)"
         "a = item_quantity y + held rx (items st) (old_lines (products ex)) (item_id y)"
      by blast
    from p(1,2) have m: "(n, p_quantity p) \<in> set (new_lines ps)" by (force simp: new_lines_def)
    have "\<forall>l \<in> set (new_lines ps). 0 \<le> snd l" using nn by (auto simp: new_lines_def)
    from held_member_le[OF m y(2) this] held_mset[OF assms(4), of rx "items st"]
    have "p_quantity p \<le> held rx (items st) (old_lines (products ex)) (item_id y)" by simp
    with q y(1,3) p(3) show False by force
  qed
  have 5: "ledger (items st') =
             map (\<lambda>(j, q). (j, q + held rx (items st) (old_lines (products ex)) j))
               (ledger (items st))"
    if c: "cancels req ex" and r: "put_slip rx now i req st = (Inr u, st')" for u st'
  proof -
    from put_slip_edit_cancel_ledger(2)[OF assms(1,2,3) c r] h
    have "ledger (items st') =
        map (\<lambda>(j, q). (j, q + 2 * held rx (items st) (old_lines (products ex)) j
                            - held rx (items st) (old_lines (products ex)) j))
          (ledger (items st))"
      by simp
    then show ?thesis by (simp add: algebra_simps)
  qed
  from 1 2 3 4 5 show ?thesis by blast
qed

theorem edit_same_lines_round_trip_witness:
  "mset (new_lines [order ''Seat Cover'' 2]) = mset (old_lines (products receipt))
   \<and> \<not> isl (fst (put_slip literal_rx 7 ''s1'' same_edit sold_shop))
   \<and> ledger (items sold_shop) = [(''i1'', 3), (''i2'', 3)]
   \<and> ledger (items (snd (put_slip literal_rx 7 ''s1'' same_edit sold_shop))) = ledger (items sold_shop)"
proof -
  let ?R = "put_slip literal_rx 7 ''s1'' same_edit sold_shop"
  have h1: "distinct (map item_id (items sold_shop))" by code_simp
  have h2: "find (\<lambda>s. slip_id s = ''s1'') (slips sold_shop) = Some receipt" by code_simp
  have h3: "e_products same_edit = Some [order ''Seat Cover'' 2]" by code_simp
  have h4: "mset (new_lines [order ''Seat Cover'' 2]) = mset (old_lines (products receipt))"
  proof -
    have "new_lines [order ''Seat Cover'' 2] = old_lines (products receipt)" by code_simp
    then show ?thesis by (rule arg_cong)
  qed
  have nc: "\<not> cancels same_edit receipt" by code_simp
  have ok: "\<not> isl (fst ?R)" by code_simp
  have l: "ledger (items sold_shop) = [(''i1'', 3), (''i2'', 3)]" by code_simp
  note T = edit_same_lines_round_trip[OF h1 h2 h3 h4, of literal_rx 7]
  have r: "ledger (items (snd ?R)) = ledger (items sold_shop)"
    by (rule mp[OF conjunct1[OF conjunct2[OF T]] nc])
  show ?thesis by (intro conjI h4 ok l r)
qed



end
